theory Spec2Isabelle
  imports Main "HOL-Library.Word" "HOL-Library.Multiset" "HOL-Library.AList"
begin

section \<open>Go values used by the server\<close>

text \<open>
  Go's \<^verbatim>\<open>int\<close> is a 64-bit two's complement integer on the platforms the server
  runs on: addition wraps, comparison is signed. A \<^verbatim>\<open>time.Time\<close> is modelled as
  the number of nanoseconds since the zero \<^verbatim>\<open>Time\<close> (January 1, year 1, UTC) on one
  clock; a \<^verbatim>\<open>time.Duration\<close> is an int64 number of nanoseconds. An \<^verbatim>\<open>error\<close>
  is represented by its message.
\<close>

type_synonym go_int = "64 word"
type_synonym time = int
type_synonym duration = int
type_synonym error = string

definition maxDuration :: duration where
  "maxDuration = 2 ^ 63 - 1"

definition minDuration :: duration where
  "minDuration = - (2 ^ 63)"

definition Minute :: duration where
  "Minute = 60 * 1000000000"

definition zeroTime :: time where
  "zeroTime = 0"

text \<open>
  \<^verbatim>\<open>t.Sub(u)\<close> of package time: the difference, replaced by the largest (smallest)
  Duration when it does not fit into an int64. \<^verbatim>\<open>time.Since(t)\<close> is
  \<^verbatim>\<open>time.Now().Sub(t)\<close>; the reading of the clock is the argument \<open>now\<close>.
\<close>

definition time_Sub :: "time \<Rightarrow> time \<Rightarrow> duration" where
  "time_Sub t u =
     (let d = t - u in
      if maxDuration < d then maxDuration
      else if d < minDuration then minDuration
      else d)"

definition time_Since :: "time \<Rightarrow> time \<Rightarrow> duration" where
  "time_Since now t = time_Sub now t"

text \<open>
  The outcome of a call that can return an error or panic (a nil pointer dereference).
\<close>

datatype 'a outcome = Ok 'a | Err error | Panic

section \<open>Slices and their backing arrays\<close>

text \<open>
  A slice is a header (backing array, length); copying the header does not copy the
  array. The nil slice has no array. Backing arrays live in a heap, one heap for each
  element type. Every slice of the server starts at index 0 of its array.
\<close>

datatype slice = NilSlice | Slice nat nat

record 'a heap =
  arrays :: "nat \<Rightarrow> 'a list"
  nextFree :: nat

fun len :: "slice \<Rightarrow> nat" where
  "len NilSlice = 0"
| "len (Slice a n) = n"

fun elems :: "'a heap \<Rightarrow> slice \<Rightarrow> 'a list" where
  "elems h NilSlice = []"
| "elems h (Slice a n) = take n (arrays h a)"

text \<open>
  The slice a function returns after building it with \<^verbatim>\<open>append\<close> from a nil slice:
  still nil when nothing was appended, otherwise a header for a backing array that no
  other slice refers to.
\<close>

definition newSlice :: "'a list \<Rightarrow> 'a heap \<Rightarrow> slice \<times> 'a heap" where
  "newSlice xs h =
     (if xs = [] then (NilSlice, h)
      else (Slice (nextFree h) (length xs),
            h\<lparr>arrays := (arrays h)(nextFree h := xs), nextFree := Suc (nextFree h)\<rparr>))"

text \<open>\<^verbatim>\<open>s[:n]\<close> for \<open>n \<le> len s\<close>: a new header for the same array.\<close>

fun reslice :: "slice \<Rightarrow> nat \<Rightarrow> slice" where
  "reslice NilSlice n = NilSlice"
| "reslice (Slice a m) n = Slice a n"

text \<open>
  \<^verbatim>\<open>sort.Slice(s, less)\<close> permutes the elements of \<open>s\<close> inside its backing array.
  The permutation it arrives at is the argument \<open>srt\<close>: package sort promises a
  sorted permutation and no stability (\<open>sorts\<close> below).
\<close>

fun sort_Slice ::
  "(('a \<Rightarrow> 'a \<Rightarrow> bool) \<Rightarrow> 'a list \<Rightarrow> 'a list) \<Rightarrow> slice \<Rightarrow> ('a \<Rightarrow> 'a \<Rightarrow> bool) \<Rightarrow> 'a heap \<Rightarrow> 'a heap" where
  "sort_Slice srt NilSlice lt h = h"
| "sort_Slice srt (Slice a n) lt h =
     h\<lparr>arrays := (arrays h)(a := srt lt (take n (arrays h a)) @ drop n (arrays h a))\<rparr>"

definition sorts :: "(('a \<Rightarrow> 'a \<Rightarrow> bool) \<Rightarrow> 'a list \<Rightarrow> 'a list) \<Rightarrow> ('a \<Rightarrow> 'a \<Rightarrow> bool) \<Rightarrow> bool" where
  "sorts srt lt =
     (\<forall>xs. mset (srt lt xs) = mset xs \<and> sorted_wrt (\<lambda>a b. \<not> lt b a) (srt lt xs))"

text \<open>
  Insertion sort, the algorithm \<^verbatim>\<open>sort.Slice\<close> runs on a slice of at most 12
  elements: one sorting function that meets the contract.
\<close>

fun insertBy :: "('a \<Rightarrow> 'a \<Rightarrow> bool) \<Rightarrow> 'a \<Rightarrow> 'a list \<Rightarrow> 'a list" where
  "insertBy lt x [] = [x]"
| "insertBy lt x (y # ys) = (if lt y x then y # insertBy lt x ys else x # y # ys)"

fun insertionSort :: "('a \<Rightarrow> 'a \<Rightarrow> bool) \<Rightarrow> 'a list \<Rightarrow> 'a list" where
  "insertionSort lt [] = []"
| "insertionSort lt (x # xs) = insertBy lt x (insertionSort lt xs)"

section \<open>The cache (main.go, lines 22 to 101)\<close>

record RepoStats =
  Name :: string
  Stars :: go_int
  Forks :: go_int
  Contributors :: go_int
  Commits :: go_int
  License :: string
  LastUpdated :: time
  Description :: string
  Language :: string
  LanguageColor :: string
  OpenIssues :: go_int
  DefaultBranch :: string
  Tags :: "string list"

record ContributorStats =
  Login :: string
  AvatarURL :: string
  Contributions :: go_int
  Repositories :: "string list"

text \<open>
  \<^verbatim>\<open>CacheItem.Data\<close> is an \<^verbatim>\<open>interface{}\<close>: \<open>None\<close> is the nil interface, \<open>Some s\<close>
  an interface holding the slice \<open>s\<close> (also when \<open>s\<close> is the nil slice: an interface
  holding a nil slice is not nil). Only \<^verbatim>\<open>updateStats\<close> writes \<^verbatim>\<open>c.stats\<close> and only
  \<^verbatim>\<open>updateContributors\<close> writes \<^verbatim>\<open>c.contributors\<close>, each with a slice of the type
  the matching getter asserts, so the type assertions of the getters cannot fail and
  the model keeps no type tag.
\<close>

record CacheItem =
  Data :: "slice option"
  Timestamp :: time

record Cache =
  stats :: CacheItem
  contributors :: CacheItem

definition cacheDuration :: duration where
  "cacheDuration = 15 * Minute"

text \<open>\<^verbatim>\<open>var cache = &Cache{}\<close>: both items are zero values.\<close>

definition emptyItem :: CacheItem where
  "emptyItem = \<lparr>Data = None, Timestamp = zeroTime\<rparr>"

definition emptyCache :: Cache where
  "emptyCache = \<lparr>stats = emptyItem, contributors = emptyItem\<rparr>"

definition isStale :: "time \<Rightarrow> CacheItem \<Rightarrow> bool" where
  "isStale now item = (cacheDuration < time_Since now (Timestamp item))"

definition updateStats :: "time \<Rightarrow> slice \<Rightarrow> Cache \<Rightarrow> Cache" where
  "updateStats now s c = c\<lparr>stats := \<lparr>Data = Some s, Timestamp = now\<rparr>\<rparr>"

definition getStats :: "Cache \<Rightarrow> slice \<times> bool" where
  "getStats c = (case Data (stats c) of None \<Rightarrow> (NilSlice, False) | Some s \<Rightarrow> (s, True))"

definition updateContributors :: "time \<Rightarrow> slice \<Rightarrow> Cache \<Rightarrow> Cache" where
  "updateContributors now s c = c\<lparr>contributors := \<lparr>Data = Some s, Timestamp = now\<rparr>\<rparr>"

definition getContributors :: "Cache \<Rightarrow> slice \<times> bool" where
  "getContributors c =
     (case Data (contributors c) of None \<Rightarrow> (NilSlice, False) | Some s \<Rightarrow> (s, True))"

text \<open>The two statistic kinds and the cache entry of each.\<close>

datatype kind = KStats | KContributors

fun entry :: "kind \<Rightarrow> Cache \<Rightarrow> CacheItem" where
  "entry KStats c = stats c"
| "entry KContributors c = contributors c"

fun put :: "kind \<Rightarrow> time \<Rightarrow> slice \<Rightarrow> Cache \<Rightarrow> Cache" where
  "put KStats = updateStats"
| "put KContributors = updateContributors"

text \<open>
  The cache after a sequence of successful writes (kind, time stamped, slice), oldest
  first, starting from the empty cache.
\<close>

fun writes :: "(kind \<times> time \<times> slice) list \<Rightarrow> Cache \<Rightarrow> Cache" where
  "writes [] c = c"
| "writes ((k, t, s) # ws) c = writes ws (put k t s c)"

section \<open>The lock of the cache (main.go, lines 55 to 101)\<close>

text \<open>
  The \<^verbatim>\<open>Cache\<close> has one \<^verbatim>\<open>sync.RWMutex\<close>, its field \<^verbatim>\<open>mu\<close>. A
  \<^verbatim>\<open>sync.RWMutex\<close> is held by any number of readers or by one writer: \<^verbatim>\<open>Lock\<close>
  waits while a writer or a reader holds it, \<^verbatim>\<open>RLock\<close> waits while a writer holds
  it. \<open>None\<close>: the call does not return in this state of the mutex.
\<close>

record RWMutex =
  writerHeld :: bool
  readerCount :: nat

definition unlocked :: RWMutex where
  "unlocked = \<lparr>writerHeld = False, readerCount = 0\<rparr>"

datatype locking = Lock | RLock

fun acquire :: "locking \<Rightarrow> RWMutex \<Rightarrow> RWMutex option" where
  "acquire Lock mu =
     (if writerHeld mu \<or> 0 < readerCount mu then None else Some (mu\<lparr>writerHeld := True\<rparr>))"
| "acquire RLock mu =
     (if writerHeld mu then None else Some (mu\<lparr>readerCount := Suc (readerCount mu)\<rparr>))"

text \<open>
  The four methods of the cache, the entry each works on, and the first statement of
  each (lines 68, 77, 86 and 95), which locks \<^verbatim>\<open>c.mu\<close> until the method returns.
\<close>

datatype operation = UpdateStats | GetStats | UpdateContributors | GetContributors

fun entryOf :: "operation \<Rightarrow> kind" where
  "entryOf UpdateStats = KStats"
| "entryOf GetStats = KStats"
| "entryOf UpdateContributors = KContributors"
| "entryOf GetContributors = KContributors"

fun lockingOf :: "operation \<Rightarrow> locking" where
  "lockingOf UpdateStats = Lock"
| "lockingOf GetStats = RLock"
| "lockingOf UpdateContributors = Lock"
| "lockingOf GetContributors = RLock"

text \<open>
  One goroutine is inside the method \<open>running\<close>, having locked the free mutex; another
  calls the method \<open>arriving\<close>: \<open>arriving\<close> is blocked when its locking does not return.
\<close>

definition blocks :: "operation \<Rightarrow> operation \<Rightarrow> bool" where
  "blocks running arriving =
     (case acquire (lockingOf running) unlocked of
        None \<Rightarrow> False
      | Some mu \<Rightarrow> acquire (lockingOf arriving) mu = None)"

section \<open>The GitHub client\<close>

text \<open>
  What the server reads of a \<^verbatim>\<open>github.Repository\<close> and a \<^verbatim>\<open>github.Contributor\<close>.
  \<open>repo_Name\<close>, \<open>repo_StargazersCount\<close> and \<open>repo_ForksCount\<close> are the pointer fields
  the code dereferences (\<open>None\<close> is nil); every other field is read through its getter,
  which returns the zero value for nil, and holds the getter's result.
\<close>

record Repository =
  repo_Name :: "string option"
  repo_StargazersCount :: "go_int option"
  repo_ForksCount :: "go_int option"
  GetPrivate :: bool
  GetLicenseName :: string
  GetUpdatedAt :: time
  GetDescription :: string
  GetLanguage :: string
  GetOpenIssuesCount :: go_int
  GetDefaultBranch :: string

record Contributor =
  GetLogin :: string
  GetAvatarURL :: string
  GetContributions :: go_int

text \<open>
  The answers of the GitHub API during one aggregation: the listing of the organisation
  and, for a repository name, its contributors, commits (their SHAs) and topics. A
  failed call returns a nil slice and the error.
\<close>

record Client =
  ListByOrg :: "error + Repository list"
  ListContributors :: "string \<Rightarrow> error + Contributor list"
  ListCommits :: "string \<Rightarrow> error + string list"
  ListAllTopics :: "string \<Rightarrow> error + string list"

text \<open>The slice a call returns next to its error: nil when the call failed.\<close>

fun returned :: "error + 'a list \<Rightarrow> 'a list" where
  "returned (Inl e) = []"
| "returned (Inr xs) = xs"

section \<open>fetchStats (main.go, lines 103 to 161)\<close>

text \<open>
  The body of the loop for one public repository (lines 119 to 156). The three failures
  are logged and nothing else; \<open>GetLanguageColor\<close> is the lookup of package colors,
  a parameter here. The local variables \<^verbatim>\<open>stats\<close> and \<^verbatim>\<open>contributors\<close> of the
  source are \<open>st\<close> and \<open>cs\<close> throughout, the two names being the fields of the cache.
\<close>

definition repoStats :: "(string \<Rightarrow> string) \<Rightarrow> Client \<Rightarrow> Repository \<Rightarrow> RepoStats outcome" where
  "repoStats GetLanguageColor client repo =
     (case repo_Name repo of
        None \<Rightarrow> Panic
      | Some name \<Rightarrow>
          (let cs = returned (ListContributors client name);
               commits = returned (ListCommits client name);
               tags = returned (ListAllTopics client name);
               tagNames = tags;
               language = GetLanguage repo
           in case repo_StargazersCount repo of
                None \<Rightarrow> Panic
              | Some stars \<Rightarrow>
                  (case repo_ForksCount repo of
                     None \<Rightarrow> Panic
                   | Some forks \<Rightarrow>
                       Ok \<lparr>Name = name,
                           Stars = stars,
                           Forks = forks,
                           Contributors = of_nat (length cs),
                           Commits = of_nat (length commits),
                           License = GetLicenseName repo,
                           LastUpdated = GetUpdatedAt repo,
                           Description = GetDescription repo,
                           Language = language,
                           LanguageColor = GetLanguageColor language,
                           OpenIssues = GetOpenIssuesCount repo,
                           DefaultBranch = GetDefaultBranch repo,
                           Tags = tagNames\<rparr>)))"

fun fetchStats_loop ::
  "(string \<Rightarrow> string) \<Rightarrow> Client \<Rightarrow> RepoStats list \<Rightarrow> Repository list \<Rightarrow> RepoStats list outcome" where
  "fetchStats_loop GetLanguageColor client allStats [] = Ok allStats"
| "fetchStats_loop GetLanguageColor client allStats (repo # repos) =
     (if GetPrivate repo then fetchStats_loop GetLanguageColor client allStats repos
      else case repoStats GetLanguageColor client repo of
             Ok st \<Rightarrow> fetchStats_loop GetLanguageColor client (allStats @ [st]) repos
           | Err e \<Rightarrow> Err e
           | Panic \<Rightarrow> Panic)"

text \<open>The elements of the slice \<^verbatim>\<open>fetchStats\<close> returns, or its error.\<close>

definition fetchStats :: "(string \<Rightarrow> string) \<Rightarrow> Client \<Rightarrow> RepoStats list outcome" where
  "fetchStats GetLanguageColor client =
     (case ListByOrg client of
        Inl err \<Rightarrow> Err err
      | Inr repos \<Rightarrow> fetchStats_loop GetLanguageColor client [] repos)"

section \<open>fetchTopContributors (main.go, lines 163 to 223)\<close>

text \<open>
  \<^verbatim>\<open>strings.ToLower\<close> and \<^verbatim>\<open>strings.Contains\<close> on the bytes of a string. Lower-casing
  maps the letters A to Z to a to z; no other character becomes one of the five of
  \<^verbatim>\<open>[bot]\<close>, which is all the test of line 189 looks at.
\<close>

definition toLowerByte :: "char \<Rightarrow> char" where
  "toLowerByte c =
     (case map_of (zip ''ABCDEFGHIJKLMNOPQRSTUVWXYZ'' ''abcdefghijklmnopqrstuvwxyz'') c of
        Some l \<Rightarrow> l
      | None \<Rightarrow> c)"

definition strings_ToLower :: "string \<Rightarrow> string" where
  "strings_ToLower s = map toLowerByte s"

fun strings_Contains :: "string \<Rightarrow> string \<Rightarrow> bool" where
  "strings_Contains [] substr = (substr = [])"
| "strings_Contains (c # s) substr =
     (take (length substr) (c # s) = substr \<or> strings_Contains s substr)"

text \<open>The test of line 189: the contributor is skipped.\<close>

definition skipped :: "string \<Rightarrow> bool" where
  "skipped login = (login = [] \<or> strings_Contains (strings_ToLower login) ''[bot]'')"

text \<open>
  \<^verbatim>\<open>contributorMap\<close>, a \<^verbatim>\<open>map[string]*ContributorStats\<close>, as an association list with
  one pair for each key; each pointer is reachable from its key alone, so an update
  through the pointer is an update of the map. The order of the pairs means nothing:
  it is not the order in which \<^verbatim>\<open>range\<close> visits the map.
\<close>

type_synonym contributorMap = "(string \<times> ContributorStats) list"

text \<open>The body of the inner loop (lines 188 to 203).\<close>

definition mergeContributor :: "string \<Rightarrow> contributorMap \<Rightarrow> Contributor \<Rightarrow> contributorMap" where
  "mergeContributor repoName contributorMap contributor =
     (let login = GetLogin contributor in
      if login = [] \<or> strings_Contains (strings_ToLower login) ''[bot]'' then contributorMap
      else case map_of contributorMap login of
             Some st \<Rightarrow>
               AList.update login
                 (st\<lparr>Contributions := Contributions st + GetContributions contributor,
                     Repositories := Repositories st @ [repoName]\<rparr>)
                 contributorMap
           | None \<Rightarrow>
               AList.update login
                 \<lparr>Login = login,
                  AvatarURL = GetAvatarURL contributor,
                  Contributions = GetContributions contributor,
                  Repositories = [repoName]\<rparr>
                 contributorMap)"

text \<open>The loop over the repositories (lines 175 to 205).\<close>

fun mergeRepos :: "Client \<Rightarrow> contributorMap \<Rightarrow> Repository list \<Rightarrow> contributorMap outcome" where
  "mergeRepos client contributorMap [] = Ok contributorMap"
| "mergeRepos client contributorMap (repo # repos) =
     (if GetPrivate repo then mergeRepos client contributorMap repos
      else case repo_Name repo of
             None \<Rightarrow> Panic
           | Some name \<Rightarrow>
               (case ListContributors client name of
                  Inl err \<Rightarrow> mergeRepos client contributorMap repos
                | Inr cs \<Rightarrow>
                    mergeRepos client (foldl (mergeContributor name) contributorMap cs) repos))"

text \<open>
  What the Go runtime and package sort leave open: the order in which \<^verbatim>\<open>range\<close>
  visits the entries of a map (\<open>mapRange\<close>, applied to the values of the map), and the
  sorted permutation \<^verbatim>\<open>sort.Slice\<close> arrives at, for each of its two uses.
\<close>

record runtime =
  mapRange :: "ContributorStats list \<Rightarrow> ContributorStats list"
  sortContributors :: "(ContributorStats \<Rightarrow> ContributorStats \<Rightarrow> bool) \<Rightarrow> ContributorStats list \<Rightarrow> ContributorStats list"
  sortRepoStats :: "(RepoStats \<Rightarrow> RepoStats \<Rightarrow> bool) \<Rightarrow> RepoStats list \<Rightarrow> RepoStats list"

text \<open>The comparisons of line 214 and line 308, on the elements at the two indices.\<close>

definition moreContributions :: "ContributorStats \<Rightarrow> ContributorStats \<Rightarrow> bool" where
  "moreContributions a b = (Contributions b <s Contributions a)"

text \<open>A conforming runtime: \<^verbatim>\<open>range\<close> visits every entry once, the sorts sort.\<close>

definition moreStars :: "RepoStats \<Rightarrow> RepoStats \<Rightarrow> bool" where
  "moreStars a b = (Stars b <s Stars a)"

definition conforming :: "runtime \<Rightarrow> bool" where
  "conforming rt =
     ((\<forall>xs. mset (mapRange rt xs) = mset xs) \<and>
      sorts (sortContributors rt) moreContributions \<and>
      sorts (sortRepoStats rt) moreStars)"

text \<open>Lines 207 to 215: the slice of the map's values, sorted.\<close>

definition sortedContributors :: "runtime \<Rightarrow> contributorMap \<Rightarrow> ContributorStats list" where
  "sortedContributors rt contributorMap =
     (let cs = mapRange rt (map snd contributorMap)
      in sortContributors rt moreContributions cs)"

text \<open>Lines 217 to 220, and lines 340 to 343 of the handler.\<close>

definition applyLimit :: "int \<Rightarrow> 'a list \<Rightarrow> 'a list" where
  "applyLimit limit cs =
     (if 0 < limit \<and> limit < int (length cs) then take (nat limit) cs else cs)"

text \<open>The elements of the slice \<^verbatim>\<open>fetchTopContributors\<close> returns, or its error.\<close>

definition fetchTopContributors :: "runtime \<Rightarrow> Client \<Rightarrow> int \<Rightarrow> ContributorStats list outcome" where
  "fetchTopContributors rt client limit =
     (case ListByOrg client of
        Inl err \<Rightarrow> Err err
      | Inr repos \<Rightarrow>
          (case mergeRepos client [] repos of
             Ok contributorMap \<Rightarrow> Ok (applyLimit limit (sortedContributors rt contributorMap))
           | Err e \<Rightarrow> Err e
           | Panic \<Rightarrow> Panic))"

section \<open>The refresh paths (main.go, lines 225 to 245 and 285 to 346)\<close>

text \<open>
  The state of the process: the cache and the backing arrays of the slices of each
  element type.
\<close>

record state =
  cache :: Cache
  statsHeap :: "RepoStats heap"
  contributorsHeap :: "ContributorStats heap"

datatype response =
    StatsOK "RepoStats list" go_int go_int go_int go_int
  | ContributorsOK "ContributorStats list"
  | InternalServerError error
  | Recovered

text \<open>
  The two goroutines of \<^verbatim>\<open>prefetchData\<close>, each as one step at the time \<open>now\<close> its
  aggregation ends. \<open>None\<close>: the goroutine panicked, which ends the process.
\<close>

definition prefetchStats :: "(string \<Rightarrow> string) \<Rightarrow> Client \<Rightarrow> time \<Rightarrow> state \<Rightarrow> state option" where
  "prefetchStats GetLanguageColor client now s =
     (case fetchStats GetLanguageColor client of
        Err err \<Rightarrow> Some s
      | Panic \<Rightarrow> None
      | Ok xs \<Rightarrow>
          (let (st, h) = newSlice xs (statsHeap s)
           in Some (s\<lparr>statsHeap := h, cache := updateStats now st (cache s)\<rparr>)))"

definition prefetchContributors :: "runtime \<Rightarrow> Client \<Rightarrow> time \<Rightarrow> state \<Rightarrow> state option" where
  "prefetchContributors rt client now s =
     (case fetchTopContributors rt client 0 of
        Err err \<Rightarrow> Some s
      | Panic \<Rightarrow> None
      | Ok xs \<Rightarrow>
          (let (cs, h) = newSlice xs (contributorsHeap s)
           in Some (s\<lparr>contributorsHeap := h, cache := updateContributors now cs (cache s)\<rparr>)))"

text \<open>
  Lines 297 to 321 of the handler of \<^verbatim>\<open>/stats\<close>: the totals, the sort of the slice
  \<open>st\<close> in place, the response.
\<close>

definition serveStats :: "runtime \<Rightarrow> slice \<Rightarrow> state \<Rightarrow> response \<times> state" where
  "serveStats rt st s =
     (let xs = elems (statsHeap s) st;
          totalStars = foldl (\<lambda>t repo. t + Stars repo) 0 xs;
          totalForks = foldl (\<lambda>t repo. t + Forks repo) 0 xs;
          totalContributors = foldl (\<lambda>t repo. t + Contributors repo) 0 xs;
          totalCommits = foldl (\<lambda>t repo. t + Commits repo) 0 xs;
          h = sort_Slice (sortRepoStats rt) st moreStars (statsHeap s)
      in (StatsOK (elems h st) totalStars totalForks totalContributors totalCommits,
          s\<lparr>statsHeap := h\<rparr>))"

text \<open>
  The handler of \<^verbatim>\<open>/stats\<close> (lines 286 to 321). \<open>now\<close> is the clock when the
  staleness is tested, \<open>now'\<close> when a refreshed result is written. A panic is caught by
  \<^verbatim>\<open>gin.Recovery\<close>.
\<close>

definition handleStats ::
  "runtime \<Rightarrow> (string \<Rightarrow> string) \<Rightarrow> Client \<Rightarrow> time \<Rightarrow> time \<Rightarrow> state \<Rightarrow> response \<times> state" where
  "handleStats rt GetLanguageColor client now now' s =
     (let (st, exists) = getStats (cache s) in
      if \<not> exists \<or> isStale now (stats (cache s)) then
        (case fetchStats GetLanguageColor client of
           Err err \<Rightarrow> (InternalServerError err, s)
         | Panic \<Rightarrow> (Recovered, s)
         | Ok xs \<Rightarrow>
             (let (st, h) = newSlice xs (statsHeap s)
              in serveStats rt st (s\<lparr>statsHeap := h, cache := updateStats now' st (cache s)\<rparr>)))
      else serveStats rt st s)"

text \<open>Lines 340 to 345 of the handler of \<^verbatim>\<open>/contributors\<close>.\<close>

definition serveContributors :: "int \<Rightarrow> slice \<Rightarrow> state \<Rightarrow> response \<times> state" where
  "serveContributors limit cs s =
     (let cs = (if 0 < limit \<and> limit < int (len cs) then reslice cs (nat limit) else cs)
      in (ContributorsOK (elems (contributorsHeap s) cs), s))"

text \<open>
  The handler of \<^verbatim>\<open>/contributors\<close> (lines 323 to 346). \<open>atoi\<close> is the result of
  \<^verbatim>\<open>strconv.Atoi\<close> on the limit of the query.
\<close>

definition handleContributors ::
  "runtime \<Rightarrow> Client \<Rightarrow> error + int \<Rightarrow> time \<Rightarrow> time \<Rightarrow> state \<Rightarrow> response \<times> state" where
  "handleContributors rt client atoi now now' s =
     (let limit = (case atoi of Inl err \<Rightarrow> 0 | Inr n \<Rightarrow> n);
          (cs, exists) = getContributors (cache s) in
      if \<not> exists \<or> isStale now (contributors (cache s)) then
        (case fetchTopContributors rt client 0 of
           Err err \<Rightarrow> (InternalServerError err, s)
         | Panic \<Rightarrow> (Recovered, s)
         | Ok xs \<Rightarrow>
             (let (cs, h) = newSlice xs (contributorsHeap s)
              in serveContributors limit cs
                   (s\<lparr>contributorsHeap := h, cache := updateContributors now' cs (cache s)\<rparr>)))
      else serveContributors limit cs s)"

text \<open>The process at its start: the empty cache, no slice allocated.\<close>

definition emptyHeap :: "'a heap" where
  "emptyHeap = \<lparr>arrays = (\<lambda>a. []), nextFree = 0\<rparr>"

definition initState :: state where
  "initState = \<lparr>cache = emptyCache, statsHeap = emptyHeap, contributorsHeap = emptyHeap\<rparr>"

section \<open>Notions of the specification\<close>

text \<open>
  A repository as the GitHub API delivers it: its name and its two counters are present,
  so the code dereferences no nil pointer.
\<close>

definition wellFormed :: "Repository \<Rightarrow> bool" where
  "wellFormed repo =
     (repo_Name repo \<noteq> None \<and> repo_StargazersCount repo \<noteq> None \<and> repo_ForksCount repo \<noteq> None)"

text \<open>A slice whose length does not exceed its backing array, as every slice of Go.\<close>

fun validSlice :: "'a heap \<Rightarrow> slice \<Rightarrow> bool" where
  "validSlice h NilSlice = True"
| "validSlice h (Slice a n) = (n \<le> length (arrays h a))"

text \<open>A login that contains \<^verbatim>\<open>[bot]\<close> in any letter case.\<close>

definition botMarked :: "string \<Rightarrow> bool" where
  "botMarked login =
     (\<exists>pre c1 c2 c3 post.
        login = pre @ [CHR ''['', c1, c2, c3, CHR '']''] @ post \<and>
        c1 \<in> {CHR ''b'', CHR ''B''} \<and> c2 \<in> {CHR ''o'', CHR ''O''} \<and> c3 \<in> {CHR ''t'', CHR ''T''})"

text \<open>
  The per-repository contributor results one aggregation goes through: every
  contributor of every public repository whose contributors could be listed, with the
  name of the repository, in the order of the loops.
\<close>

fun fetched :: "Client \<Rightarrow> Repository list \<Rightarrow> (string \<times> Contributor) list" where
  "fetched client [] = []"
| "fetched client (repo # repos) =
     (if GetPrivate repo then fetched client repos
      else case repo_Name repo of
             None \<Rightarrow> []
           | Some name \<Rightarrow> map (Pair name) (returned (ListContributors client name)) @ fetched client repos)"

text \<open>The (login, repository, contribution count) triple of such a result.\<close>

definition triple :: "string \<times> Contributor \<Rightarrow> string \<times> string \<times> go_int" where
  "triple p = (GetLogin (snd p), fst p, GetContributions (snd p))"

text \<open>
  What a sequence of contributor entries says regardless of its order: for each entry
  its login, its total and the set of its repositories.
\<close>

definition totals :: "ContributorStats list \<Rightarrow> (string \<times> go_int \<times> string set) set" where
  "totals out = (\<lambda>st. (Login st, Contributions st, set (Repositories st))) ` set out"

text \<open>
  The entry the specification gives a login after the results \<open>ps\<close>: none when no result
  carries the login or the login is excluded; otherwise the avatar of the first result
  with that login, the sum of the contribution counts and the repositories, over the
  results with that login.
\<close>

definition mergedEntry :: "(string \<times> Contributor) list \<Rightarrow> string \<Rightarrow> ContributorStats option" where
  "mergedEntry ps login =
     (case filter (\<lambda>p. GetLogin (snd p) = login) ps of
        [] \<Rightarrow> None
      | p # qs \<Rightarrow>
          if skipped login then None
          else Some \<lparr>Login = login,
                     AvatarURL = GetAvatarURL (snd p),
                     Contributions = sum_list (map (\<lambda>q. GetContributions (snd q)) (p # qs)),
                     Repositories = map fst (p # qs)\<rparr>)"

text \<open>
  The total and the repositories of a login in a multiset of (login, repository,
  contribution count) triples.
\<close>

definition loginTotal :: "(string \<times> string \<times> go_int) multiset \<Rightarrow> string \<Rightarrow> go_int" where
  "loginTotal T login = sum_mset (image_mset (\<lambda>t. snd (snd t)) (filter_mset (\<lambda>t. fst t = login) T))"

definition loginRepositories :: "(string \<times> string \<times> go_int) multiset \<Rightarrow> string \<Rightarrow> string set" where
  "loginRepositories T login = (\<lambda>t. fst (snd t)) ` {t \<in> set_mset T. fst t = login}"

text \<open>The same answers of the API with every skipped contributor taken out.\<close>

definition withoutSkipped :: "Client \<Rightarrow> Client" where
  "withoutSkipped client =
     client\<lparr>ListContributors :=
       (\<lambda>name. case ListContributors client name of
                 Inl err \<Rightarrow> Inl err
               | Inr cs \<Rightarrow> Inr (filter (\<lambda>c. \<not> skipped (GetLogin c)) cs))\<rparr>"

section \<open>Example inputs\<close>

text \<open>
  Two runtimes that differ in the order of \<^verbatim>\<open>range\<close> over a map only; both sort by
  insertion.
\<close>

definition forwardRuntime :: runtime where
  "forwardRuntime =
     \<lparr>mapRange = (\<lambda>xs. xs), sortContributors = insertionSort, sortRepoStats = insertionSort\<rparr>"

definition backwardRuntime :: runtime where
  "backwardRuntime =
     \<lparr>mapRange = rev, sortContributors = insertionSort, sortRepoStats = insertionSort\<rparr>"

definition exampleColor :: "string \<Rightarrow> string" where
  "exampleColor language = (if language = ''Go'' then ''#00ADD8'' else ''#cccccc'')"

definition exampleRepo :: "string \<Rightarrow> go_int \<Rightarrow> bool \<Rightarrow> Repository" where
  "exampleRepo name stars private =
     \<lparr>repo_Name = Some name, repo_StargazersCount = Some stars, repo_ForksCount = Some 1,
      GetPrivate = private, GetLicenseName = ''AGPL-3.0'', GetUpdatedAt = 63880000000000000000,
      GetDescription = [], GetLanguage = ''Go'', GetOpenIssuesCount = 0,
      GetDefaultBranch = ''main''\<rparr>"

definition exampleContributor :: "string \<Rightarrow> go_int \<Rightarrow> Contributor" where
  "exampleContributor login n = \<lparr>GetLogin = login, GetAvatarURL = [], GetContributions = n\<rparr>"

text \<open>The listing of the organisation fails.\<close>

definition failingClient :: Client where
  "failingClient =
     \<lparr>ListByOrg = Inl ''502 Bad Gateway'',
      ListContributors = (\<lambda>name. Inl ''502 Bad Gateway''),
      ListCommits = (\<lambda>name. Inl ''502 Bad Gateway''),
      ListAllTopics = (\<lambda>name. Inl ''502 Bad Gateway'')\<rparr>"

text \<open>Every repository of the organisation is private.\<close>

definition privateClient :: Client where
  "privateClient =
     \<lparr>ListByOrg = Inr [exampleRepo ''vault'' 3 True, exampleRepo ''infra'' 0 True],
      ListContributors = (\<lambda>name. Inr [exampleContributor ''alice'' 4]),
      ListCommits = (\<lambda>name. Inr [''c0ffee'']),
      ListAllTopics = (\<lambda>name. Inr [])\<rparr>"

text \<open>
  Three public repositories with 10, 5 and 20 stars. The commits of \<open>web\<close> and the
  topics of \<open>api\<close> cannot be fetched.
\<close>

definition starsClient :: Client where
  "starsClient =
     \<lparr>ListByOrg = Inr [exampleRepo ''web'' 10 False, exampleRepo ''api'' 5 False,
                       exampleRepo ''bot'' 20 False],
      ListContributors = (\<lambda>name. Inr [exampleContributor ''alice'' 4]),
      ListCommits = (\<lambda>name. if name = ''web'' then Inl ''409 Conflict'' else Inr [''c0ffee'', ''decade'']),
      ListAllTopics = (\<lambda>name. if name = ''api'' then Inl ''404 Not Found'' else Inr [''vtuber''])\<rparr>"

text \<open>
  Two public repositories whose contributors add up to 50 (alice), 30 (bob), 30 (carol)
  and 10 (dave), and a bot.
\<close>

definition tieClient :: Client where
  "tieClient =
     \<lparr>ListByOrg = Inr [exampleRepo ''web'' 10 False, exampleRepo ''api'' 5 False],
      ListContributors =
        (\<lambda>name. if name = ''web''
                 then Inr [exampleContributor ''alice'' 20, exampleContributor ''bob'' 30,
                           exampleContributor ''dependabot[bot]'' 99, exampleContributor ''carol'' 10]
                 else Inr [exampleContributor ''alice'' 30, exampleContributor ''carol'' 20,
                           exampleContributor ''dave'' 10]),
      ListCommits = (\<lambda>name. Inr []),
      ListAllTopics = (\<lambda>name. Inr [])\<rparr>"

text \<open>The same organisation listed in the other order.\<close>

definition tieClient' :: Client where
  "tieClient' = tieClient\<lparr>ListByOrg := Inr [exampleRepo ''api'' 5 False, exampleRepo ''web'' 10 False]\<rparr>"

definition exampleEntry :: "string \<Rightarrow> go_int \<Rightarrow> string list \<Rightarrow> ContributorStats" where
  "exampleEntry login n repos =
     \<lparr>Login = login, AvatarURL = [], Contributions = n, Repositories = repos\<rparr>"

text \<open>
  The state after the prefetch of the contributors from \<open>tieClient\<close> under
  \<open>forwardRuntime\<close> has ended at the time 63900000000000000000.
\<close>

definition tieState :: state where
  "tieState =
     \<lparr>cache = \<lparr>stats = emptyItem,
                contributors = \<lparr>Data = Some (Slice 0 4), Timestamp = 63900000000000000000\<rparr>\<rparr>,
      statsHeap = emptyHeap,
      contributorsHeap =
        \<lparr>arrays = (\<lambda>a. [])(0 := [exampleEntry ''alice'' 50 [''web'', ''api''],
                                  exampleEntry ''bob'' 30 [''web''],
                                  exampleEntry ''carol'' 30 [''web'', ''api''],
                                  exampleEntry ''dave'' 10 [''api'']]),
         nextFree = 1\<rparr>\<rparr>"

definition exampleStat :: "string \<Rightarrow> go_int \<Rightarrow> go_int \<Rightarrow> string list \<Rightarrow> RepoStats" where
  "exampleStat name stars commits tags =
     \<lparr>Name = name, Stars = stars, Forks = 1, Contributors = 1, Commits = commits,
      License = ''AGPL-3.0'', LastUpdated = 63880000000000000000, Description = [],
      Language = ''Go'', LanguageColor = ''#00ADD8'', OpenIssues = 0, DefaultBranch = ''main'',
      Tags = tags\<rparr>"

text \<open>
  The state after the prefetch of the statistics from \<open>starsClient\<close> has ended at
  the time 63900000000000000000.
\<close>

definition warmState :: state where
  "warmState =
     \<lparr>cache = \<lparr>stats = \<lparr>Data = Some (Slice 0 3), Timestamp = 63900000000000000000\<rparr>,
                contributors = emptyItem\<rparr>,
      statsHeap =
        \<lparr>arrays = (\<lambda>a. [])(0 := [exampleStat ''web'' 10 0 [''vtuber''],
                                  exampleStat ''api'' 5 2 [],
                                  exampleStat ''bot'' 20 2 [''vtuber'']]),
         nextFree = 1\<rparr>,
      contributorsHeap = emptyHeap\<rparr>"

section \<open>Staleness\<close>

lemma time_Since_gt: "(d < time_Since now t) = (d < now - t)" if "minDuration \<le> d" "d < maxDuration"
  using that by (auto simp: time_Since_def time_Sub_def Let_def)

lemma isStale_elapsed: "isStale now item = (cacheDuration < now - Timestamp item)"
  unfolding isStale_def
  by (rule time_Since_gt) (simp_all add: cacheDuration_def Minute_def minDuration_def maxDuration_def)

lemma entry_put_other: "k \<noteq> k' \<Longrightarrow> entry k (put k' t sl c) = entry k c"
  by (cases k; cases k') (simp_all add: updateStats_def updateContributors_def)

lemma entry_writes_other: "k \<notin> fst ` set ws \<Longrightarrow> entry k (writes ws c) = entry k c"
proof (induction ws arbitrary: c)
  case Nil
  show ?case by simp
next
  case (Cons w ws)
  obtain k' t sl where w: "w = (k', t, sl)" by (cases w)
  from Cons.prems w have "k \<noteq> k'" and "k \<notin> fst ` set ws" by auto
  with Cons.IH w show ?case by (simp add: entry_put_other)
qed

lemma entry_emptyCache: "entry k emptyCache = emptyItem"
  by (cases k) (simp_all add: emptyCache_def)

text \<open>
  C1. For each statistic kind, a cache entry is stale exactly when no write of that kind
  has happened since the start of the process (its timestamp is still the zero Time), or
  more than 15 minutes (in nanoseconds) lie between the entry's timestamp and the
  current instant. The clock is assumed to read later than 15 minutes after the zero
  Time.
\<close>

theorem isStale_iff_unwritten_or_expired:
  assumes "cacheDuration < now"
  shows "(isStale now (entry k (writes ws emptyCache)) \<longleftrightarrow>
            (k \<notin> fst ` set ws \<or>
             15 * 60 * 1000000000 < now - Timestamp (entry k (writes ws emptyCache)))) \<and>
         (k \<notin> fst ` set ws \<longrightarrow> Timestamp (entry k (writes ws emptyCache)) = zeroTime)"
proof -
  have unwritten: "Timestamp (entry k (writes ws emptyCache)) = zeroTime" if "k \<notin> fst ` set ws"
    using that by (simp add: entry_writes_other entry_emptyCache emptyItem_def)
  have fifteen: "cacheDuration = 15 * 60 * 1000000000"
    by (simp add: cacheDuration_def Minute_def)
  have "isStale now (entry k (writes ws emptyCache)) \<longleftrightarrow>
           (k \<notin> fst ` set ws \<or>
            15 * 60 * 1000000000 < now - Timestamp (entry k (writes ws emptyCache)))"
  proof (cases "k \<in> fst ` set ws")
    case True
    then show ?thesis by (simp add: isStale_elapsed fifteen)
  next
    case False
    with assms unwritten show ?thesis by (simp add: isStale_elapsed zeroTime_def)
  qed
  with unwritten show ?thesis by blast
qed

theorem isStale_iff_unwritten_or_expired_witness:
  "isStale 63900000000000000000
     (entry KContributors (writes [(KStats, 63899999999000000000, NilSlice)] emptyCache)) \<and>
   \<not> isStale 63900000000000000000
     (entry KStats (writes [(KStats, 63899999999000000000, NilSlice)] emptyCache)) \<and>
   isStale 63900000000000000000
     (entry KStats (writes [(KStats, 63899000000000000000, NilSlice)] emptyCache))"
proof -
  have now: "cacheDuration < 63900000000000000000"
    by (simp add: cacheDuration_def Minute_def)
  show ?thesis
    using isStale_iff_unwritten_or_expired [OF now, of KContributors "[(KStats, 63899999999000000000, NilSlice)]"]
      isStale_iff_unwritten_or_expired [OF now, of KStats "[(KStats, 63899999999000000000, NilSlice)]"]
      isStale_iff_unwritten_or_expired [OF now, of KStats "[(KStats, 63899000000000000000, NilSlice)]"]
    by (simp add: updateStats_def)
qed

section \<open>Insertion sort meets the contract of sort.Slice\<close>

lemma mset_insertBy: "mset (insertBy lt x ys) = add_mset x (mset ys)"
  by (induction ys) simp_all

lemma set_insertBy: "set (insertBy lt x ys) = insert x (set ys)"
  by (induction ys) auto

lemma mset_insertionSort: "mset (insertionSort lt xs) = mset xs"
  by (induction xs) (simp_all add: mset_insertBy)

lemma sorted_insertBy:
  assumes asym: "\<And>a b. lt a b \<Longrightarrow> \<not> lt b a"
    and trans: "\<And>a b c. \<not> lt b a \<Longrightarrow> \<not> lt c b \<Longrightarrow> \<not> lt c a"
    and "sorted_wrt (\<lambda>a b. \<not> lt b a) ys"
  shows "sorted_wrt (\<lambda>a b. \<not> lt b a) (insertBy lt x ys)"
  using assms(3)
proof (induction ys)
  case Nil
  show ?case by simp
next
  case (Cons y ys)
  show ?case
  proof (cases "lt y x")
    case True
    with Cons asym show ?thesis by (auto simp: set_insertBy)
  next
    case False
    with Cons.prems trans show ?thesis by auto
  qed
qed

lemma sorts_insertionSort:
  assumes asym: "\<And>a b. lt a b \<Longrightarrow> \<not> lt b a"
    and trans: "\<And>a b c. \<not> lt b a \<Longrightarrow> \<not> lt c b \<Longrightarrow> \<not> lt c a"
  shows "sorts insertionSort lt"
proof -
  have "sorted_wrt (\<lambda>a b. \<not> lt b a) (insertionSort lt xs)" for xs
    by (induction xs) (simp_all add: sorted_insertBy [where lt = lt, OF asym trans])
  then show ?thesis by (simp add: sorts_def mset_insertionSort)
qed

lemma sorts_insertionSort_moreContributions: "sorts insertionSort moreContributions"
  by (rule sorts_insertionSort) (auto simp: moreContributions_def word_sless_alt)

lemma sorts_insertionSort_moreStars: "sorts insertionSort moreStars"
  by (rule sorts_insertionSort) (auto simp: moreStars_def word_sless_alt)

lemma conforming_forwardRuntime: "conforming forwardRuntime"
  by (simp add: conforming_def forwardRuntime_def sorts_insertionSort_moreContributions
      sorts_insertionSort_moreStars)

lemma conforming_backwardRuntime: "conforming backwardRuntime"
  by (simp add: conforming_def backwardRuntime_def sorts_insertionSort_moreContributions
      sorts_insertionSort_moreStars)

section \<open>Failed and empty refreshes\<close>

lemma newSlice_Nil: "newSlice [] h = (NilSlice, h)"
  by (simp add: newSlice_def)

lemma fetchStats_failingClient: "fetchStats col failingClient = Err ''502 Bad Gateway''"
  by (simp add: fetchStats_def failingClient_def)

lemma fetchTopContributors_failingClient:
  "fetchTopContributors rt failingClient n = Err ''502 Bad Gateway''"
  by (simp add: fetchTopContributors_def failingClient_def)

lemma warmState_reached:
  "prefetchStats exampleColor starsClient 63900000000000000000 initState = Some warmState"
  by (simp add: prefetchStats_def fetchStats_def starsClient_def exampleRepo_def repoStats_def
      exampleContributor_def newSlice_def initState_def emptyHeap_def warmState_def
      exampleStat_def updateStats_def emptyCache_def exampleColor_def)

lemma warmState_stale: "isStale 63900000960000000000 (stats (cache warmState))"
  by (simp add: isStale_elapsed warmState_def cacheDuration_def Minute_def)

lemma warmState_fresh: "\<not> isStale 63900000060000000000 (stats (cache warmState))"
  by (simp add: isStale_elapsed warmState_def cacheDuration_def Minute_def)

text \<open>
  C2. When the aggregation of a kind returns an error, the background prefetch of that
  kind leaves the whole state of the process as it was, and so does the handler of that
  kind whenever it refreshes (no entry, or a stale one), answering with the error: the
  payload and the timestamp of the entry are the same as before, and so is what every
  later read finds.
\<close>

theorem failed_aggregation_leaves_state:
  "(fetchStats GetLanguageColor client = Err err \<longrightarrow>
      prefetchStats GetLanguageColor client t s = Some s \<and>
      (\<not> snd (getStats (cache s)) \<or> isStale now (stats (cache s)) \<longrightarrow>
         handleStats rt GetLanguageColor client now now' s = (InternalServerError err, s))) \<and>
   (fetchTopContributors rt client 0 = Err err \<longrightarrow>
      prefetchContributors rt client t s = Some s \<and>
      (\<not> snd (getContributors (cache s)) \<or> isStale now (contributors (cache s)) \<longrightarrow>
         handleContributors rt client atoi now now' s = (InternalServerError err, s)))"
  by (auto simp: prefetchStats_def handleStats_def prefetchContributors_def
      handleContributors_def Let_def split: prod.splits)

theorem failed_aggregation_leaves_state_witness:
  "prefetchStats exampleColor failingClient 63900000960000000000 warmState = Some warmState \<and>
   handleStats forwardRuntime exampleColor failingClient 63900000960000000000
       63900000960000000001 warmState
     = (InternalServerError ''502 Bad Gateway'', warmState) \<and>
   prefetchContributors forwardRuntime failingClient 63900000960000000000 warmState
     = Some warmState \<and>
   handleContributors forwardRuntime failingClient (Inr 2) 63900000960000000000
       63900000960000000001 warmState
     = (InternalServerError ''502 Bad Gateway'', warmState)"
proof -
  have absent: "\<not> snd (getContributors (cache warmState))"
    by (simp add: getContributors_def warmState_def emptyItem_def)
  show ?thesis
    using failed_aggregation_leaves_state [where GetLanguageColor = exampleColor
        and client = failingClient and err = "''502 Bad Gateway''" and s = warmState
        and t = 63900000960000000000 and now = 63900000960000000000 and rt = forwardRuntime
        and now' = 63900000960000000001 and atoi = "Inr 2"]
      fetchStats_failingClient [of exampleColor]
      fetchTopContributors_failingClient [of forwardRuntime 0]
      warmState_stale absent
    by simp
qed

lemma fetchStats_privateClient: "fetchStats col privateClient = Ok []"
  by (simp add: fetchStats_def privateClient_def exampleRepo_def)

lemma fetchTopContributors_privateClient:
  "fetchTopContributors forwardRuntime privateClient 0 = Ok []"
  by (simp add: fetchTopContributors_def privateClient_def exampleRepo_def
      sortedContributors_def forwardRuntime_def applyLimit_def)

text \<open>
  C10. When the aggregation of a kind succeeds with an empty sequence, the prefetch of
  that kind, and the handler of that kind whenever it refreshes, write the empty result
  into the cache with the time of the write: the next get of that kind returns the
  empty payload with present = true.
\<close>

theorem empty_refresh_is_cached:
  "(fetchStats GetLanguageColor client = Ok [] \<longrightarrow>
      (case prefetchStats GetLanguageColor client t s of
         None \<Rightarrow> False
       | Some s' \<Rightarrow>
           getStats (cache s') = (NilSlice, True) \<and> elems (statsHeap s') NilSlice = [] \<and>
           Timestamp (stats (cache s')) = t) \<and>
      (\<not> snd (getStats (cache s)) \<or> isStale now (stats (cache s)) \<longrightarrow>
         (case handleStats rt GetLanguageColor client now now' s of
            (r, s') \<Rightarrow>
              r = StatsOK [] 0 0 0 0 \<and>
              getStats (cache s') = (NilSlice, True) \<and> elems (statsHeap s') NilSlice = [] \<and>
              Timestamp (stats (cache s')) = now'))) \<and>
   (fetchTopContributors rt client 0 = Ok [] \<longrightarrow>
      (case prefetchContributors rt client t s of
         None \<Rightarrow> False
       | Some s' \<Rightarrow>
           getContributors (cache s') = (NilSlice, True) \<and>
           elems (contributorsHeap s') NilSlice = [] \<and>
           Timestamp (contributors (cache s')) = t) \<and>
      (\<not> snd (getContributors (cache s)) \<or> isStale now (contributors (cache s)) \<longrightarrow>
         (case handleContributors rt client atoi now now' s of
            (r, s') \<Rightarrow>
              r = ContributorsOK [] \<and>
              getContributors (cache s') = (NilSlice, True) \<and>
              elems (contributorsHeap s') NilSlice = [] \<and>
              Timestamp (contributors (cache s')) = now')))"
  by (auto simp: prefetchStats_def handleStats_def prefetchContributors_def
      handleContributors_def serveStats_def serveContributors_def newSlice_Nil
      getStats_def getContributors_def updateStats_def updateContributors_def Let_def
      split: prod.splits)

theorem empty_refresh_is_cached_witness:
  "prefetchStats exampleColor privateClient 63900000000000000000 initState =
     Some (initState\<lparr>cache := updateStats 63900000000000000000 NilSlice emptyCache\<rparr>) \<and>
   getStats (updateStats 63900000000000000000 NilSlice emptyCache) = (NilSlice, True) \<and>
   fst (handleContributors forwardRuntime privateClient (Inr 0) 63900000000000000000
          63900000000000000001 initState) = ContributorsOK []"
proof -
  have absent: "\<not> snd (getContributors (cache initState))"
    by (simp add: getContributors_def initState_def emptyCache_def emptyItem_def)
  show ?thesis
    using empty_refresh_is_cached [where GetLanguageColor = exampleColor
        and client = privateClient and t = 63900000000000000000 and s = initState
        and now = 63900000000000000000 and rt = forwardRuntime
        and now' = 63900000000000000001 and atoi = "Inr 0"]
      fetchStats_privateClient [of exampleColor] fetchTopContributors_privateClient absent
    by (auto simp: prefetchStats_def newSlice_Nil initState_def getStats_def updateStats_def
        split: option.splits prod.splits)
qed

section \<open>What a read does to the cache\<close>

text \<open>
  A read of the contributors that is served from the cache changes nothing: the limit
  shortens the handler's own copy of the slice header.
\<close>

lemma contributors_read_keeps_state:
  assumes "snd (getContributors (cache s))" and "\<not> isStale now (contributors (cache s))"
  shows "snd (handleContributors rt client atoi now now' s) = s"
  using assms
  by (auto simp: handleContributors_def serveContributors_def Let_def split: prod.splits)

text \<open>
  A read of the statistics keeps the header in the cache and permutes the elements of
  its backing array.
\<close>

lemma stats_read_permutes_payload:
  assumes "snd (getStats (cache s))" and "\<not> isStale now (stats (cache s))"
    and "conforming rt" and "handleStats rt col client now now' s = (r, s')"
  shows "cache s' = cache s"
    and "mset (elems (statsHeap s') (fst (getStats (cache s')))) =
         mset (elems (statsHeap s) (fst (getStats (cache s))))"
proof -
  obtain st where st: "getStats (cache s) = (st, True)"
    using assms(1) by (cases "getStats (cache s)") auto
  have perm: "mset (sortRepoStats rt moreStars xs) = mset xs" for xs
    using assms(3) by (simp add: conforming_def sorts_def)
  from assms(2,4) st have s': "s' = s\<lparr>statsHeap := sort_Slice (sortRepoStats rt) st moreStars (statsHeap s)\<rparr>"
    by (auto simp: handleStats_def serveStats_def Let_def)
  then show "cache s' = cache s" by simp
  have "mset (elems (sort_Slice (sortRepoStats rt) st moreStars h) st) = mset (elems h st)" for h
  proof (cases st)
    case NilSlice
    then show ?thesis by simp
  next
    case (Slice a n)
    have "length (sortRepoStats rt moreStars (take n (arrays h a))) = length (take n (arrays h a))"
      using perm [of "take n (arrays h a)"] by (metis size_mset)
    with Slice perm show ?thesis by auto
  qed
  with s' st show "mset (elems (statsHeap s') (fst (getStats (cache s')))) =
         mset (elems (statsHeap s) (fst (getStats (cache s))))"
    by simp
qed

section \<open>Failures during fetchStats\<close>

lemma fetchStats_loop_acc:
  "fetchStats_loop col client acc repos =
     (case fetchStats_loop col client [] repos of
        Ok sts \<Rightarrow> Ok (acc @ sts) | Err e \<Rightarrow> Err e | Panic \<Rightarrow> Panic)"
proof (induction repos arbitrary: acc)
  case Nil
  show ?case by simp
next
  case (Cons repo repos)
  show ?case
  proof (cases "GetPrivate repo")
    case True
    with Cons.IH [of acc] show ?thesis by simp
  next
    case False
    show ?thesis
    proof (cases "repoStats col client repo")
      case (Ok st)
      with False Cons.IH [of "acc @ [st]"] Cons.IH [of "[st]"] show ?thesis
        by (simp split: outcome.splits)
    qed (use False in simp_all)
  qed
qed

lemma repoStats_wellFormed:
  assumes "wellFormed repo"
  shows "\<exists>st. repoStats col client repo = Ok st"
  using assms by (auto simp: wellFormed_def repoStats_def Let_def)

lemma repoStats_fields:
  assumes "repo_Name repo = Some name" and "repoStats col client repo = Ok st"
  shows "Name st = name"
    and "Contributors st = (case ListContributors client name of Inl e \<Rightarrow> 0 | Inr cs \<Rightarrow> of_nat (length cs))"
    and "Commits st = (case ListCommits client name of Inl e \<Rightarrow> 0 | Inr cs \<Rightarrow> of_nat (length cs))"
    and "Tags st = (case ListAllTopics client name of Inl e \<Rightarrow> [] | Inr ts \<Rightarrow> ts)"
  using assms
  by (auto simp: repoStats_def Let_def split: option.splits sum.splits)

lemma repoStats_cong:
  assumes "repo_Name repo = Some name"
    and "ListContributors client' name = ListContributors client name"
    and "ListCommits client' name = ListCommits client name"
    and "ListAllTopics client' name = ListAllTopics client name"
  shows "repoStats col client' repo = repoStats col client repo"
  using assms by (simp add: repoStats_def)

lemma fetchStats_loop_wellFormed:
  assumes "\<forall>repo \<in> set repos. \<not> GetPrivate repo \<longrightarrow> wellFormed repo"
  shows "\<exists>sts. fetchStats_loop col client [] repos = Ok sts \<and>
           list_all2 (\<lambda>st repo. repoStats col client repo = Ok st) sts
             (filter (\<lambda>repo. \<not> GetPrivate repo) repos)"
  using assms
proof (induction repos)
  case Nil
  show ?case by simp
next
  case (Cons repo repos)
  then obtain sts where sts: "fetchStats_loop col client [] repos = Ok sts"
    "list_all2 (\<lambda>st repo. repoStats col client repo = Ok st) sts
       (filter (\<lambda>repo. \<not> GetPrivate repo) repos)"
    by auto
  show ?case
  proof (cases "GetPrivate repo")
    case True
    with sts show ?thesis by simp
  next
    case False
    with Cons.prems obtain st where st: "repoStats col client repo = Ok st"
      using repoStats_wellFormed [of repo col client] by auto
    have "fetchStats_loop col client [] (repo # repos) = Ok (st # sts)"
      using False st sts(1) fetchStats_loop_acc [of col client "[st]" repos] by simp
    with False st sts(2) show ?thesis by simp
  qed
qed

text \<open>
  C9. When the listing of the organisation fails, fetchStats returns that error and no
  statistics. When it succeeds (and the public repositories are as the API delivers
  them), fetchStats returns one RepoStats for each public repository, in the order of
  the listing, each being what the body of the loop computes for that repository
  alone. In that RepoStats a failed listing of the contributors, the commits or the
  topics shows as the count 0 or as no tags; and the RepoStats of a repository depends
  on the answers to the three queries for its own name only, so a failure for another
  repository does not change it.
\<close>

theorem fetchStats_failures:
  "(ListByOrg client = Inl err \<longrightarrow> fetchStats GetLanguageColor client = Err err) \<and>
   (ListByOrg client = Inr repos \<and> (\<forall>repo \<in> set repos. \<not> GetPrivate repo \<longrightarrow> wellFormed repo) \<longrightarrow>
      (\<exists>sts. fetchStats GetLanguageColor client = Ok sts \<and>
         list_all2 (\<lambda>st repo. repoStats GetLanguageColor client repo = Ok st) sts
           (filter (\<lambda>repo. \<not> GetPrivate repo) repos))) \<and>
   (repo_Name repo = Some name \<and> repoStats GetLanguageColor client repo = Ok st \<longrightarrow>
      Name st = name \<and>
      Contributors st =
        (case ListContributors client name of Inl e \<Rightarrow> 0 | Inr cs \<Rightarrow> of_nat (length cs)) \<and>
      Commits st =
        (case ListCommits client name of Inl e \<Rightarrow> 0 | Inr cs \<Rightarrow> of_nat (length cs)) \<and>
      Tags st = (case ListAllTopics client name of Inl e \<Rightarrow> [] | Inr ts \<Rightarrow> ts)) \<and>
   (repo_Name repo = Some name \<and>
    ListContributors client' name = ListContributors client name \<and>
    ListCommits client' name = ListCommits client name \<and>
    ListAllTopics client' name = ListAllTopics client name \<longrightarrow>
      repoStats GetLanguageColor client' repo = repoStats GetLanguageColor client repo)"
proof (intro conjI impI)
  assume "ListByOrg client = Inl err"
  then show "fetchStats GetLanguageColor client = Err err" by (simp add: fetchStats_def)
next
  assume "ListByOrg client = Inr repos \<and> (\<forall>repo \<in> set repos. \<not> GetPrivate repo \<longrightarrow> wellFormed repo)"
  then show "\<exists>sts. fetchStats GetLanguageColor client = Ok sts \<and>
         list_all2 (\<lambda>st repo. repoStats GetLanguageColor client repo = Ok st) sts
           (filter (\<lambda>repo. \<not> GetPrivate repo) repos)"
    using fetchStats_loop_wellFormed [of repos GetLanguageColor client]
    by (simp add: fetchStats_def)
next
  assume a: "repo_Name repo = Some name \<and> repoStats GetLanguageColor client repo = Ok st"
  then show "Name st = name" using repoStats_fields(1) by blast
  from a show "Contributors st =
        (case ListContributors client name of Inl e \<Rightarrow> 0 | Inr cs \<Rightarrow> of_nat (length cs))"
    using repoStats_fields(2) by blast
  from a show "Commits st =
        (case ListCommits client name of Inl e \<Rightarrow> 0 | Inr cs \<Rightarrow> of_nat (length cs))"
    using repoStats_fields(3) by blast
  from a show "Tags st = (case ListAllTopics client name of Inl e \<Rightarrow> [] | Inr ts \<Rightarrow> ts)"
    using repoStats_fields(4) by blast
next
  assume "repo_Name repo = Some name \<and>
    ListContributors client' name = ListContributors client name \<and>
    ListCommits client' name = ListCommits client name \<and>
    ListAllTopics client' name = ListAllTopics client name"
  then show "repoStats GetLanguageColor client' repo = repoStats GetLanguageColor client repo"
    using repoStats_cong by blast
qed


lemma starsClient_listing:
  "ListByOrg starsClient =
     Inr [exampleRepo ''web'' 10 False, exampleRepo ''api'' 5 False, exampleRepo ''bot'' 20 False]"
  by (simp add: starsClient_def)

lemma repoStats_starsClient:
  "repoStats exampleColor starsClient (exampleRepo ''web'' 10 False) = Ok (exampleStat ''web'' 10 0 [''vtuber''])"
  "repoStats exampleColor starsClient (exampleRepo ''api'' 5 False) = Ok (exampleStat ''api'' 5 2 [])"
  "repoStats exampleColor starsClient (exampleRepo ''bot'' 20 False) = Ok (exampleStat ''bot'' 20 2 [''vtuber''])"
  by (simp_all add: repoStats_def starsClient_def exampleRepo_def exampleStat_def
      exampleContributor_def exampleColor_def)

theorem fetchStats_failures_witness:
  "fetchStats exampleColor failingClient = Err ''502 Bad Gateway'' \<and>
   fetchStats exampleColor starsClient =
     Ok [exampleStat ''web'' 10 0 [''vtuber''], exampleStat ''api'' 5 2 [],
         exampleStat ''bot'' 20 2 [''vtuber'']] \<and>
   Commits (exampleStat ''web'' 10 0 [''vtuber'']) = 0 \<and>
   Tags (exampleStat ''api'' 5 2 []) = [] \<and>
   repoStats exampleColor (starsClient\<lparr>ListCommits := (\<lambda>name. Inl ''409 Conflict'')\<rparr>)
       (exampleRepo ''web'' 10 False)
     = Ok (exampleStat ''web'' 10 0 [''vtuber''])"
proof -
  let ?repos = "[exampleRepo ''web'' 10 False, exampleRepo ''api'' 5 False,
                 exampleRepo ''bot'' 20 False]"
  have wf: "\<forall>repo \<in> set ?repos. \<not> GetPrivate repo \<longrightarrow> wellFormed repo"
    by (simp add: exampleRepo_def wellFormed_def)
  have public: "filter (\<lambda>repo. \<not> GetPrivate repo) ?repos = ?repos"
    by (simp add: exampleRepo_def)
  have 1: "fetchStats exampleColor failingClient = Err ''502 Bad Gateway''"
    using fetchStats_failures [where client = failingClient and err = "''502 Bad Gateway''"
        and GetLanguageColor = exampleColor, THEN conjunct1]
    by (simp add: failingClient_def)
  have "\<exists>sts. fetchStats exampleColor starsClient = Ok sts \<and>
         list_all2 (\<lambda>st repo. repoStats exampleColor starsClient repo = Ok st) sts ?repos"
    using fetchStats_failures [where client = starsClient and GetLanguageColor = exampleColor
        and repos = ?repos, THEN conjunct2, THEN conjunct1]
      starsClient_listing wf public
    by simp
  then have 2: "fetchStats exampleColor starsClient =
     Ok [exampleStat ''web'' 10 0 [''vtuber''], exampleStat ''api'' 5 2 [],
         exampleStat ''bot'' 20 2 [''vtuber'']]"
    by (auto simp: repoStats_starsClient list_all2_Cons2)
  have 3: "Commits (exampleStat ''web'' 10 0 [''vtuber'']) = 0"
    using fetchStats_failures [where client = starsClient and GetLanguageColor = exampleColor
        and repo = "exampleRepo ''web'' 10 False" and name = "''web''"
        and st = "exampleStat ''web'' 10 0 [''vtuber'']", THEN conjunct2, THEN conjunct2,
        THEN conjunct1]
    by (simp add: repoStats_starsClient) (simp add: exampleRepo_def starsClient_def)
  have 4: "Tags (exampleStat ''api'' 5 2 []) = []"
    using fetchStats_failures [where client = starsClient and GetLanguageColor = exampleColor
        and repo = "exampleRepo ''api'' 5 False" and name = "''api''"
        and st = "exampleStat ''api'' 5 2 []", THEN conjunct2, THEN conjunct2, THEN conjunct1]
    by (simp add: repoStats_starsClient) (simp add: exampleRepo_def starsClient_def)
  have 5: "repoStats exampleColor (starsClient\<lparr>ListCommits := (\<lambda>name. Inl ''409 Conflict'')\<rparr>)
       (exampleRepo ''web'' 10 False)
     = Ok (exampleStat ''web'' 10 0 [''vtuber''])"
    using fetchStats_failures [where GetLanguageColor = exampleColor and client = starsClient
        and client' = "starsClient\<lparr>ListCommits := (\<lambda>name. Inl ''409 Conflict'')\<rparr>"
        and repo = "exampleRepo ''web'' 10 False" and name = "''web''",
        THEN conjunct2, THEN conjunct2, THEN conjunct2]
    by (simp add: repoStats_starsClient) (simp add: exampleRepo_def starsClient_def)
  from 1 2 3 4 5 show ?thesis by simp
qed

section \<open>The merge of the contributors\<close>

lemma mergeRepos_fetched:
  "mergeRepos client m repos = Ok m' \<Longrightarrow>
     m' = foldl (\<lambda>m p. mergeContributor (fst p) m (snd p)) m (fetched client repos)"
proof (induction repos arbitrary: m)
  case Nil
  then show ?case by simp
next
  case (Cons repo repos)
  show ?case
  proof (cases "GetPrivate repo")
    case True
    with Cons show ?thesis by simp
  next
    case False
    with Cons.prems obtain name where name: "repo_Name repo = Some name"
      by (cases "repo_Name repo") auto
    show ?thesis
    proof (cases "ListContributors client name")
      case (Inl err)
      with Cons False name show ?thesis by simp
    next
      case (Inr cs)
      have "foldl (\<lambda>m p. mergeContributor (fst p) m (snd p)) m (map (Pair name) cs)
              = foldl (mergeContributor name) m cs" for m
        by (induction cs arbitrary: m) simp_all
      with Cons False name Inr show ?thesis by simp
    qed
  qed
qed

lemma mergedEntry_Nil: "mergedEntry [] login = None"
  by (simp add: mergedEntry_def)

lemma mergedEntry_snoc_other:
  "GetLogin (snd p) \<noteq> login \<Longrightarrow> mergedEntry (ps @ [p]) login = mergedEntry ps login"
  by (simp add: mergedEntry_def)

lemma mergedEntry_skipped: "skipped login \<Longrightarrow> mergedEntry ps login = None"
  by (simp add: mergedEntry_def split: list.splits)

lemma mergedEntry_snoc_first:
  assumes "mergedEntry ps (GetLogin (snd p)) = None" and "\<not> skipped (GetLogin (snd p))"
  shows "mergedEntry (ps @ [p]) (GetLogin (snd p)) =
           Some \<lparr>Login = GetLogin (snd p), AvatarURL = GetAvatarURL (snd p),
                  Contributions = GetContributions (snd p), Repositories = [fst p]\<rparr>"
  using assms by (simp add: mergedEntry_def split: list.splits)

lemma mergedEntry_snoc_again:
  assumes "mergedEntry ps (GetLogin (snd p)) = Some st"
  shows "mergedEntry (ps @ [p]) (GetLogin (snd p)) =
           Some (st\<lparr>Contributions := Contributions st + GetContributions (snd p),
                     Repositories := Repositories st @ [fst p]\<rparr>)"
  using assms by (auto simp: mergedEntry_def split: list.splits if_splits)

lemma mergeContributor_step:
  assumes "map_of m = mergedEntry ps" and "distinct (map fst m)"
  shows "map_of (mergeContributor (fst p) m (snd p)) = mergedEntry (ps @ [p]) \<and>
         distinct (map fst (mergeContributor (fst p) m (snd p)))"
proof (cases "skipped (GetLogin (snd p))")
  case True
  then have "mergeContributor (fst p) m (snd p) = m"
    by (simp add: mergeContributor_def skipped_def Let_def)
  moreover have "mergedEntry (ps @ [p]) login = mergedEntry ps login" for login
    using True by (cases "GetLogin (snd p) = login")
      (simp_all add: mergedEntry_skipped mergedEntry_snoc_other)
  ultimately show ?thesis using assms by auto
next
  case False
  let ?l = "GetLogin (snd p)"
  show ?thesis
  proof (cases "map_of m ?l")
    case None
    let ?new = "\<lparr>Login = ?l, AvatarURL = GetAvatarURL (snd p),
                  Contributions = GetContributions (snd p), Repositories = [fst p]\<rparr>"
    from False None have m': "mergeContributor (fst p) m (snd p) = AList.update ?l ?new m"
      by (simp add: mergeContributor_def skipped_def Let_def)
    have "mergedEntry (ps @ [p]) login = ((mergedEntry ps)(?l \<mapsto> ?new)) login" for login
      using None False assms(1) mergedEntry_snoc_first [of ps p]
      by (cases "?l = login") (auto simp: mergedEntry_snoc_other)
    with m' assms show ?thesis
      by (auto simp: update_conv' distinct_update)
  next
    case (Some st)
    let ?new = "st\<lparr>Contributions := Contributions st + GetContributions (snd p),
                     Repositories := Repositories st @ [fst p]\<rparr>"
    from False Some have m': "mergeContributor (fst p) m (snd p) = AList.update ?l ?new m"
      by (simp add: mergeContributor_def skipped_def Let_def)
    have "mergedEntry (ps @ [p]) login = ((mergedEntry ps)(?l \<mapsto> ?new)) login" for login
      using Some assms(1) mergedEntry_snoc_again [of ps p st]
      by (cases "?l = login") (auto simp: mergedEntry_snoc_other)
    with m' assms show ?thesis
      by (auto simp: update_conv' distinct_update)
  qed
qed

lemma merge_all:
  "map_of (foldl (\<lambda>m p. mergeContributor (fst p) m (snd p)) [] ps) = mergedEntry ps \<and>
   distinct (map fst (foldl (\<lambda>m p. mergeContributor (fst p) m (snd p)) [] ps))"
proof (induction ps rule: rev_induct)
  case Nil
  show ?case by (auto simp: mergedEntry_Nil)
next
  case (snoc p ps)
  then show ?case using mergeContributor_step [of _ ps p] by simp
qed

lemma mergeRepos_mergedEntry:
  assumes "mergeRepos client [] repos = Ok m"
  shows "map_of m = mergedEntry (fetched client repos)" and "distinct (map fst m)"
  using mergeRepos_fetched [OF assms] merge_all [of "fetched client repos"] by simp_all

lemma mergedEntry_Some:
  assumes "mergedEntry ps login = Some st"
  shows "Login st = login" and "\<not> skipped login"
    and "login \<in> fst ` set (map triple ps)"
    and "Contributions st = loginTotal (mset (map triple ps)) login"
    and "set (Repositories st) = loginRepositories (mset (map triple ps)) login"
proof -
  let ?qs = "filter (\<lambda>p. GetLogin (snd p) = login) ps"
  from assms have ne: "?qs \<noteq> []" and ns: "\<not> skipped login"
    and st: "st = \<lparr>Login = login, AvatarURL = GetAvatarURL (snd (hd ?qs)),
                    Contributions = sum_list (map (\<lambda>q. GetContributions (snd q)) ?qs),
                    Repositories = map fst ?qs\<rparr>"
    by (auto simp: mergedEntry_def split: list.splits if_splits)
  show "Login st = login" using st by simp
  show "\<not> skipped login" by (rule ns)
  from ne obtain p where "p \<in> set ps" "GetLogin (snd p) = login"
    by (metis (mono_tags, lifting) filter_False)
  then show "login \<in> fst ` set (map triple ps)"
    by (force simp: triple_def)
  have "filter_mset (\<lambda>t. fst t = login) (mset (map triple ps)) = mset (map triple ?qs)"
    by (induction ps) (simp_all add: triple_def)
  then have "loginTotal (mset (map triple ps)) login
      = sum_mset (image_mset (\<lambda>t. snd (snd t)) (mset (map triple ?qs)))"
    by (simp add: loginTotal_def)
  also have "\<dots> = sum_list (map (\<lambda>q. GetContributions (snd q)) ?qs)"
    by (simp add: sum_mset_sum_list [symmetric] triple_def image_mset.compositionality comp_def)
  finally show "Contributions st = loginTotal (mset (map triple ps)) login"
    using st by simp
  show "set (Repositories st) = loginRepositories (mset (map triple ps)) login"
    using st by (force simp: loginRepositories_def triple_def)
qed

lemma mergedEntry_None_iff:
  "mergedEntry ps login = None \<longleftrightarrow> skipped login \<or> login \<notin> fst ` set (map triple ps)"
proof -
  have "filter (\<lambda>p. GetLogin (snd p) = login) ps = [] \<longleftrightarrow> login \<notin> fst ` set (map triple ps)"
    by (force simp: filter_empty_conv triple_def)
  then show ?thesis
    by (auto simp: mergedEntry_def split: list.splits)
qed

lemma totals_mergedEntry:
  assumes "set out = ran (mergedEntry ps)"
  shows "totals out =
           (\<lambda>login. (login, loginTotal (mset (map triple ps)) login,
                      loginRepositories (mset (map triple ps)) login))
             ` {login \<in> fst ` set_mset (mset (map triple ps)). \<not> skipped login}"
    (is "_ = ?f ` ?L")
proof (intro set_eqI iffI)
  fix x assume "x \<in> totals out"
  then obtain st where st: "st \<in> set out"
    and x: "x = (Login st, Contributions st, set (Repositories st))"
    by (auto simp: totals_def)
  from st assms obtain login where "mergedEntry ps login = Some st"
    by (auto simp: ran_def)
  from mergedEntry_Some [OF this] x show "x \<in> ?f ` ?L" by auto
next
  fix x assume "x \<in> ?f ` ?L"
  then obtain login where l: "login \<in> fst ` set (map triple ps)" "\<not> skipped login"
    and x: "x = ?f login" by auto
  then obtain st where e: "mergedEntry ps login = Some st"
    using mergedEntry_None_iff [of ps login] by (cases "mergedEntry ps login") auto
  then have "st \<in> set out" using assms by (auto simp: ran_def)
  with mergedEntry_Some [OF e] x show "x \<in> totals out"
    by (force simp: totals_def)
qed

lemma sortedContributors_mset:
  assumes "conforming rt"
  shows "mset (sortedContributors rt m) = mset (map snd m)"
  using assms by (simp add: sortedContributors_def conforming_def sorts_def)

lemma merged_logins:
  assumes "map_of m = mergedEntry ps" and "distinct (map fst m)"
  shows "map Login (map snd m) = map fst m"
proof -
  have "Login st = l" if "(l, st) \<in> set m" for l st
    using that assms mergedEntry_Some(1) [of ps l st] by (simp add: map_of_eq_Some_iff [symmetric])
  then show ?thesis by (induction m) auto
qed

lemma applyLimit_nonpositive: "limit \<le> 0 \<Longrightarrow> applyLimit limit xs = xs"
  by (simp add: applyLimit_def)

lemma fetchTopContributors_Ok:
  assumes "ListByOrg client = Inr repos" and "fetchTopContributors rt client limit = Ok out"
  obtains m where "mergeRepos client [] repos = Ok m"
    and "out = applyLimit limit (sortedContributors rt m)"
  using assms by (auto simp: fetchTopContributors_def split: outcome.splits)

lemma fetchTopContributors_all:
  assumes "conforming rt" and "ListByOrg client = Inr repos" and "limit \<le> 0"
    and "fetchTopContributors rt client limit = Ok out"
  shows "set out = ran (mergedEntry (fetched client repos))" and "distinct (map Login out)"
proof -
  from assms(2,4) obtain m where m: "mergeRepos client [] repos = Ok m"
    and out: "out = applyLimit limit (sortedContributors rt m)"
    by (rule fetchTopContributors_Ok)
  note me = mergeRepos_mergedEntry [OF m]
  from out assms(1,3) have ms: "mset out = mset (map snd m)"
    by (simp add: applyLimit_nonpositive sortedContributors_mset)
  then have "set out = snd ` set m" by (metis mset_eq_setD set_map)
  also have "\<dots> = ran (map_of m)" using me(2) by (simp add: ran_distinct)
  finally show "set out = ran (mergedEntry (fetched client repos))" using me(1) by simp
  from ms have "mset (map Login out) = mset (map Login (map snd m))" by (metis mset_map)
  also have "\<dots> = mset (map fst m)" by (simp only: merged_logins [OF me])
  finally show "distinct (map Login out)"
    using me(2) by (metis mset_eq_imp_distinct_iff)
qed

text \<open>
  C6. Two aggregations (with no limit) that go through the same multiset of (login,
  repository, contribution count) triples, in whatever order of the repositories and of
  the contributors and under whatever order of the map and of the sort, return the
  same set of (login, total, set of repositories) entries, and no two entries of either
  result share a login.
\<close>

theorem merge_order_independent:
  assumes "conforming rt" and "conforming rt'"
    and "ListByOrg client = Inr repos" and "ListByOrg client' = Inr repos'"
    and "mset (map triple (fetched client repos)) = mset (map triple (fetched client' repos'))"
    and "limit \<le> 0" and "limit' \<le> 0"
    and "fetchTopContributors rt client limit = Ok out"
    and "fetchTopContributors rt' client' limit' = Ok out'"
  shows "totals out = totals out' \<and> distinct (map Login out) \<and> distinct (map Login out')"
proof -
  note a = fetchTopContributors_all [OF assms(1,3,6,8)]
  note b = fetchTopContributors_all [OF assms(2,4,7,9)]
  have "totals out = totals out'"
    unfolding totals_mergedEntry [OF a(1)] totals_mergedEntry [OF b(1)] assms(5) ..
  with a(2) b(2) show ?thesis by simp
qed

section \<open>The tie example\<close>

lemmas tie_eval = fetchTopContributors_def tieClient_def tieClient'_def exampleRepo_def
  exampleContributor_def exampleEntry_def mergeContributor_def strings_ToLower_def
  toLowerByte_def sortedContributors_def forwardRuntime_def backwardRuntime_def
  applyLimit_def moreContributions_def word_sless_alt Let_def

lemma tieClient_listing:
  "ListByOrg tieClient = Inr [exampleRepo ''web'' 10 False, exampleRepo ''api'' 5 False]"
  "ListByOrg tieClient' = Inr [exampleRepo ''api'' 5 False, exampleRepo ''web'' 10 False]"
  by (simp_all add: tieClient_def tieClient'_def)

lemma tieClient_merged:
  "mergeRepos tieClient [] [exampleRepo ''web'' 10 False, exampleRepo ''api'' 5 False] =
     Ok [(''alice'', exampleEntry ''alice'' 50 [''web'', ''api'']),
         (''bob'', exampleEntry ''bob'' 30 [''web'']),
         (''carol'', exampleEntry ''carol'' 30 [''web'', ''api'']),
         (''dave'', exampleEntry ''dave'' 10 [''api''])]"
  by (simp add: tie_eval)

lemma tieClient_forward:
  "fetchTopContributors forwardRuntime tieClient 0 =
     Ok [exampleEntry ''alice'' 50 [''web'', ''api''], exampleEntry ''bob'' 30 [''web''],
         exampleEntry ''carol'' 30 [''web'', ''api''], exampleEntry ''dave'' 10 [''api'']]"
  by (simp add: tie_eval)

lemma tieClient'_backward:
  "fetchTopContributors backwardRuntime tieClient' 0 =
     Ok [exampleEntry ''alice'' 50 [''api'', ''web''], exampleEntry ''bob'' 30 [''web''],
         exampleEntry ''carol'' 30 [''api'', ''web''], exampleEntry ''dave'' 10 [''api'']]"
  by (simp add: tie_eval)

lemma tieClient_triples:
  "mset (map triple (fetched tieClient [exampleRepo ''web'' 10 False, exampleRepo ''api'' 5 False]))
   = mset (map triple (fetched tieClient' [exampleRepo ''api'' 5 False, exampleRepo ''web'' 10 False]))"
  by (simp add: tieClient_def tieClient'_def exampleRepo_def exampleContributor_def triple_def)

theorem merge_order_independent_witness:
  "totals [exampleEntry ''alice'' 50 [''web'', ''api''], exampleEntry ''bob'' 30 [''web''],
           exampleEntry ''carol'' 30 [''web'', ''api''], exampleEntry ''dave'' 10 [''api'']]
   = totals [exampleEntry ''alice'' 50 [''api'', ''web''], exampleEntry ''bob'' 30 [''web''],
             exampleEntry ''carol'' 30 [''api'', ''web''], exampleEntry ''dave'' 10 [''api'']] \<and>
   fetched tieClient [exampleRepo ''web'' 10 False, exampleRepo ''api'' 5 False]
     \<noteq> fetched tieClient' [exampleRepo ''api'' 5 False, exampleRepo ''web'' 10 False]"
proof -
  have "fetched tieClient [exampleRepo ''web'' 10 False, exampleRepo ''api'' 5 False]
     \<noteq> fetched tieClient' [exampleRepo ''api'' 5 False, exampleRepo ''web'' 10 False]"
    by (simp add: tieClient_def tieClient'_def exampleRepo_def exampleContributor_def)
  then show ?thesis
    using merge_order_independent [OF conforming_forwardRuntime conforming_backwardRuntime
        tieClient_listing tieClient_triples _ _ tieClient_forward tieClient'_backward]
    by simp
qed

section \<open>The order of the result\<close>

lemma sortedContributors_sorted:
  assumes "conforming rt"
  shows "sorted_wrt (\<lambda>a b. sint (Contributions b) \<le> sint (Contributions a)) (sortedContributors rt m)"
proof -
  have "(\<lambda>a b. \<not> moreContributions b a) = (\<lambda>a b. sint (Contributions b) \<le> sint (Contributions a))"
    by (auto simp: moreContributions_def word_sless_alt fun_eq_iff)
  with assms show ?thesis
    by (simp add: sortedContributors_def conforming_def sorts_def)
qed

lemma applyLimit_sorted: "sorted_wrt R xs \<Longrightarrow> sorted_wrt R (applyLimit limit xs)"
  by (simp add: applyLimit_def sorted_wrt_take)

text \<open>A list sorted downwards by a key is determined, key by key, by its multiset.\<close>

lemma sorted_keys_unique:
  fixes key :: "'a \<Rightarrow> int"
  assumes "sorted_wrt (\<lambda>a b. key b \<le> key a) out" and "mset out = mset xs"
  shows "map key out = rev (sort (map key xs))"
proof -
  have "sorted (rev (map key out))"
    using assms(1) by (simp add: sorted_wrt_rev sorted_wrt_map)
  moreover have "mset (rev (map key out)) = mset (map key xs)"
    using assms(2) by (metis mset_map mset_rev)
  ultimately have "sort (map key xs) = rev (map key out)"
    by (simp only: properties_for_sort)
  then show ?thesis by simp
qed


lemma fetchTopContributors_sorted:
  assumes "conforming rt" and "fetchTopContributors rt client limit = Ok out"
  shows "sorted_wrt (\<lambda>a b. sint (Contributions b) \<le> sint (Contributions a)) out"
  using assms sortedContributors_sorted [OF assms(1)]
  by (auto simp: fetchTopContributors_def applyLimit_sorted split: sum.splits outcome.splits)

lemma tie_sorted:
  assumes "conforming rt"
  defines "out \<equiv> sortedContributors rt
     [(''alice'', exampleEntry ''alice'' 50 [''web'', ''api'']),
      (''bob'', exampleEntry ''bob'' 30 [''web'']),
      (''carol'', exampleEntry ''carol'' 30 [''web'', ''api'']),
      (''dave'', exampleEntry ''dave'' 10 [''api''])]"
  shows "map Contributions out = [50, 30, 30, 10]"
    and "set out = {exampleEntry ''alice'' 50 [''web'', ''api''], exampleEntry ''bob'' 30 [''web''],
      exampleEntry ''carol'' 30 [''web'', ''api''], exampleEntry ''dave'' 10 [''api'']}"
proof -
  let ?vals = "[exampleEntry ''alice'' 50 [''web'', ''api''], exampleEntry ''bob'' 30 [''web''],
      exampleEntry ''carol'' 30 [''web'', ''api''], exampleEntry ''dave'' 10 [''api'']]"
  have ms: "mset out = mset ?vals"
    unfolding out_def using sortedContributors_mset [OF assms(1)] by simp
  have "sorted_wrt (\<lambda>a b. sint (Contributions b) \<le> sint (Contributions a)) out"
    unfolding out_def by (rule sortedContributors_sorted [OF assms(1)])
  from sorted_keys_unique [OF this ms]
  have "map (\<lambda>c. sint (Contributions c)) out = [50, 30, 30, 10]"
    by (simp add: exampleEntry_def)
  then have "map sint (map Contributions out) = map sint [50, 30, 30, 10 :: go_int]"
    by (simp add: comp_def)
  moreover have "inj (sint :: go_int \<Rightarrow> int)"
    by (auto simp: inj_def intro: signed_word_eqI)
  ultimately show "map Contributions out = [50, 30, 30, 10]"
    by (simp only: inj_map_eq_map)
  from ms have "set out = set ?vals" by (rule mset_eq_setD)
  then show "set out = {exampleEntry ''alice'' 50 [''web'', ''api''], exampleEntry ''bob'' 30 [''web''],
      exampleEntry ''carol'' 30 [''web'', ''api''], exampleEntry ''dave'' 10 [''api'']}"
    by simp
qed

lemma tieClient_backward_limit:
  "fetchTopContributors forwardRuntime tieClient 2 =
     Ok [exampleEntry ''alice'' 50 [''web'', ''api''], exampleEntry ''bob'' 30 [''web'']]"
  "fetchTopContributors backwardRuntime tieClient 2 =
     Ok [exampleEntry ''alice'' 50 [''web'', ''api''], exampleEntry ''carol'' 30 [''web'', ''api'']]"
  by (simp_all add: tie_eval)

text \<open>
  C3, as the code has it. Under every order of the map and every sort that package sort
  allows, the result is sorted by total contributions, downwards (as signed integers);
  the order of equal totals is left open. For the totals 50, 30, 30, 10 the limit 2
  gives the entry with 50 followed by one of the two with 30, and the limit 0 gives all
  four, downwards.
\<close>

theorem contributors_sorted_descending:
  assumes "conforming rt"
  shows "(fetchTopContributors rt client limit = Ok out \<longrightarrow>
            sorted_wrt (\<lambda>a b. sint (Contributions b) \<le> sint (Contributions a)) out) \<and>
         (\<exists>y. fetchTopContributors rt tieClient 2 =
                 Ok [exampleEntry ''alice'' 50 [''web'', ''api''], y] \<and>
              (y = exampleEntry ''bob'' 30 [''web''] \<or>
               y = exampleEntry ''carol'' 30 [''web'', ''api''])) \<and>
         (\<exists>out4. fetchTopContributors rt tieClient 0 = Ok out4 \<and>
              map Contributions out4 = [50, 30, 30, 10])"
proof (intro conjI impI)
  assume "fetchTopContributors rt client limit = Ok out"
  with assms show "sorted_wrt (\<lambda>a b. sint (Contributions b) \<le> sint (Contributions a)) out"
    by (rule fetchTopContributors_sorted)
next
  define alice where "alice = exampleEntry ''alice'' 50 [''web'', ''api'']"
  define bob where "bob = exampleEntry ''bob'' 30 [''web'']"
  define carol where "carol = exampleEntry ''carol'' 30 [''web'', ''api'']"
  define dave where "dave = exampleEntry ''dave'' 10 [''api'']"
  define out4 where "out4 = sortedContributors rt
     [(''alice'', alice), (''bob'', bob), (''carol'', carol), (''dave'', dave)]"
  have t: "map Contributions out4 = [50, 30, 30, 10]" "set out4 = {alice, bob, carol, dave}"
    unfolding out4_def alice_def bob_def carol_def dave_def by (rule tie_sorted [OF assms])+
  have fetch: "fetchTopContributors rt tieClient n = Ok (applyLimit n out4)" for n
    unfolding out4_def alice_def bob_def carol_def dave_def
    by (simp add: fetchTopContributors_def tieClient_listing tieClient_merged del: mergeRepos.simps)
  from t(1) obtain a b rest where out: "out4 = a # b # rest"
    and cs: "Contributions a = 50" "Contributions b = 30"
    by (cases out4; cases "tl out4") auto
  have contributions: "Contributions alice = 50" "Contributions bob = 30"
    "Contributions carol = 30" "Contributions dave = 10"
    by (simp_all add: alice_def bob_def carol_def dave_def exampleEntry_def)
  from out t(2) have "a \<in> {alice, bob, carol, dave}" and "b \<in> {alice, bob, carol, dave}"
    by auto
  with cs contributions have a: "a = alice" and b: "b = bob \<or> b = carol"
    by auto
  from t(1) out have "length rest = 2" by auto
  then have "applyLimit 2 out4 = [a, b]"
    by (simp add: out applyLimit_def)
  with a b fetch [of 2]
  show "\<exists>y. fetchTopContributors rt tieClient 2 =
                 Ok [exampleEntry ''alice'' 50 [''web'', ''api''], y] \<and>
              (y = exampleEntry ''bob'' 30 [''web''] \<or>
               y = exampleEntry ''carol'' 30 [''web'', ''api''])"
    unfolding alice_def bob_def carol_def by auto
  from t(1) fetch [of 0]
  show "\<exists>out4. fetchTopContributors rt tieClient 0 = Ok out4 \<and>
              map Contributions out4 = [50, 30, 30, 10]"
    by (simp add: applyLimit_def)
qed

theorem contributors_sorted_descending_witness:
  "sorted_wrt (\<lambda>a b. sint (Contributions b) \<le> sint (Contributions a))
     [exampleEntry ''alice'' 50 [''web'', ''api''], exampleEntry ''carol'' 30 [''web'', ''api'']] \<and>
   (\<exists>y. fetchTopContributors backwardRuntime tieClient 2 =
           Ok [exampleEntry ''alice'' 50 [''web'', ''api''], y])"
  using contributors_sorted_descending [OF conforming_backwardRuntime,
      where client = tieClient and limit = 2
        and out = "[exampleEntry ''alice'' 50 [''web'', ''api''],
                    exampleEntry ''carol'' 30 [''web'', ''api'']]"]
    tieClient_backward_limit(2)
  by auto

text \<open>
  C3 as stated fails: the same answers of the API under two orders of the map, both
  allowed by Go, give two orders of the result. With the limit 2 the second entry is
  bob in one run and carol in the other.
\<close>

theorem tie_order_differs:
  "conforming forwardRuntime \<and> conforming backwardRuntime \<and>
   fetchTopContributors forwardRuntime tieClient 2 =
     Ok [exampleEntry ''alice'' 50 [''web'', ''api''], exampleEntry ''bob'' 30 [''web'']] \<and>
   fetchTopContributors backwardRuntime tieClient 2 =
     Ok [exampleEntry ''alice'' 50 [''web'', ''api''], exampleEntry ''carol'' 30 [''web'', ''api'']] \<and>
   fetchTopContributors forwardRuntime tieClient 2 \<noteq> fetchTopContributors backwardRuntime tieClient 2"
  by (simp add: conforming_forwardRuntime conforming_backwardRuntime tieClient_backward_limit
      exampleEntry_def)

section \<open>The exclusion of bots\<close>

lemma take_length_eq_iff: "take (length sub) xs = sub \<longleftrightarrow> (\<exists>post. xs = sub @ post)"
proof
  assume "take (length sub) xs = sub"
  then have "xs = sub @ drop (length sub) xs" by (metis append_take_drop_id)
  then show "\<exists>post. xs = sub @ post" ..
qed auto

lemma strings_Contains_iff: "strings_Contains s sub \<longleftrightarrow> (\<exists>pre post. s = pre @ sub @ post)"
proof (induction s)
  case Nil
  show ?case by auto
next
  case (Cons c s)
  have "(\<exists>pre post. c # s = pre @ sub @ post) \<longleftrightarrow>
          (\<exists>post. c # s = sub @ post) \<or> (\<exists>pre post. s = pre @ sub @ post)"
    (is "?l \<longleftrightarrow> ?r")
  proof
    assume ?l
    then obtain pre post where eq: "c # s = pre @ sub @ post" by blast
    show ?r
    proof (cases pre)
      case Nil
      with eq show ?thesis by auto
    next
      case (Cons d pre')
      with eq have "s = pre' @ sub @ post" by simp
      then show ?thesis by blast
    qed
  next
    assume ?r
    then show ?l
    proof
      assume "\<exists>post. c # s = sub @ post"
      then obtain post where "c # s = [] @ sub @ post" by auto
      then show ?l by blast
    next
      assume "\<exists>pre post. s = pre @ sub @ post"
      then obtain pre post where "c # s = (c # pre) @ sub @ post" by auto
      then show ?l by blast
    qed
  qed
  with Cons.IH show ?case by (simp add: take_length_eq_iff del: take_Suc_Cons)
qed

lemma toLowerByte_brackets:
  "toLowerByte c = CHR ''['' \<longleftrightarrow> c = CHR ''[''"
  "toLowerByte c = CHR '']'' \<longleftrightarrow> c = CHR '']''"
  by (auto simp: toLowerByte_def split: if_splits)

lemma toLowerByte_letters:
  "toLowerByte c = CHR ''b'' \<longleftrightarrow> c \<in> {CHR ''b'', CHR ''B''}"
  "toLowerByte c = CHR ''o'' \<longleftrightarrow> c \<in> {CHR ''o'', CHR ''O''}"
  "toLowerByte c = CHR ''t'' \<longleftrightarrow> c \<in> {CHR ''t'', CHR ''T''}"
  by (auto simp: toLowerByte_def split: if_splits)


lemma skipped_iff_botMarked: "skipped login \<longleftrightarrow> login = [] \<or> botMarked login"
proof -
  have "(\<exists>pre post. map toLowerByte login = pre @ ''[bot]'' @ post) \<longleftrightarrow> botMarked login"
    (is "?l \<longleftrightarrow> _")
  proof
    assume ?l
    then obtain pre post where "map toLowerByte login = pre @ ''[bot]'' @ post" by blast
    then obtain us c0 c1 c2 c3 c4 vs where "login = us @ c0 # c1 # c2 # c3 # c4 # vs"
      and "toLowerByte c0 = CHR ''[''" "toLowerByte c1 = CHR ''b''" "toLowerByte c2 = CHR ''o''"
        "toLowerByte c3 = CHR ''t''" "toLowerByte c4 = CHR '']''"
      by (auto simp: map_eq_append_conv map_eq_Cons_conv)
    then have "login = us @ [CHR ''['', c1, c2, c3, CHR '']''] @ vs"
      and "c1 \<in> {CHR ''b'', CHR ''B''}" "c2 \<in> {CHR ''o'', CHR ''O''}" "c3 \<in> {CHR ''t'', CHR ''T''}"
      using toLowerByte_brackets [of c0] toLowerByte_brackets [of c4]
        toLowerByte_letters(1) [of c1] toLowerByte_letters(2) [of c2] toLowerByte_letters(3) [of c3]
      by simp_all
    then show "botMarked login"
      unfolding botMarked_def by blast
  next
    assume "botMarked login"
    then obtain pre c1 c2 c3 post where login: "login = pre @ [CHR ''['', c1, c2, c3, CHR '']''] @ post"
      and "toLowerByte c1 = CHR ''b''" "toLowerByte c2 = CHR ''o''" "toLowerByte c3 = CHR ''t''"
      unfolding botMarked_def toLowerByte_letters by blast
    then have "map toLowerByte login = map toLowerByte pre @ ''[bot]'' @ map toLowerByte post"
      by (simp add: toLowerByte_brackets)
    then show ?l by blast
  qed
  then show ?thesis
    by (simp add: skipped_def strings_Contains_iff strings_ToLower_def)
qed

lemma mergeContributor_skipped:
  "skipped (GetLogin c) \<Longrightarrow> mergeContributor name m c = m"
  by (simp add: mergeContributor_def skipped_def)

lemma foldl_mergeContributor_filter:
  "foldl (mergeContributor name) m (filter (\<lambda>c. \<not> skipped (GetLogin c)) cs)
     = foldl (mergeContributor name) m cs"
  by (induction cs arbitrary: m) (simp_all add: mergeContributor_skipped)

lemma mergeRepos_withoutSkipped:
  "mergeRepos (withoutSkipped client) m repos = mergeRepos client m repos"
proof (induction repos arbitrary: m)
  case Nil
  show ?case by simp
next
  case (Cons repo repos)
  then show ?case
    by (simp add: withoutSkipped_def foldl_mergeContributor_filter
        split: option.splits sum.splits)
qed

lemma fetchTopContributors_withoutSkipped:
  "fetchTopContributors rt (withoutSkipped client) limit = fetchTopContributors rt client limit"
proof -
  have "ListByOrg (withoutSkipped client) = ListByOrg client"
    by (simp add: withoutSkipped_def)
  then show ?thesis
    by (simp add: fetchTopContributors_def mergeRepos_withoutSkipped split: sum.splits)
qed

lemma applyLimit_subset: "set (applyLimit limit xs) \<subseteq> set xs"
  by (auto simp: applyLimit_def dest: in_set_takeD)

lemma fetchTopContributors_not_skipped:
  assumes "conforming rt" and "fetchTopContributors rt client limit = Ok out" and "st \<in> set out"
  shows "\<not> skipped (Login st)"
proof -
  from assms(2) obtain repos where repos: "ListByOrg client = Inr repos"
    by (cases "ListByOrg client") (auto simp: fetchTopContributors_def)
  from repos assms(2) obtain m where m: "mergeRepos client [] repos = Ok m"
    and out: "out = applyLimit limit (sortedContributors rt m)"
    by (rule fetchTopContributors_Ok)
  note me = mergeRepos_mergedEntry [OF m]
  have "set (applyLimit limit (sortedContributors rt m)) \<subseteq> set (sortedContributors rt m)"
    by (rule applyLimit_subset)
  with assms(3) out have "st \<in> set (sortedContributors rt m)" by auto
  moreover have "set (sortedContributors rt m) = set (map snd m)"
    by (rule mset_eq_setD) (rule sortedContributors_mset [OF assms(1)])
  ultimately have "st \<in> snd ` set m" by simp
  then have "st \<in> ran (map_of m)" using me(2) by (simp add: ran_distinct)
  then obtain login where "mergedEntry (fetched client repos) login = Some st"
    using me(1) by (auto simp: ran_def)
  from mergedEntry_Some(1,2) [OF this] show ?thesis by simp
qed

text \<open>
  C8. The test of line 189 skips exactly the logins that are empty or contain
  \<^verbatim>\<open>[bot]\<close> in some letter case. No entry of the result carries such a login, and the
  result is the one the aggregation returns when the API's answers hold no such
  contributor at all: totals and repository lists of the others are untouched.
\<close>

theorem bots_are_excluded:
  "(skipped login \<longleftrightarrow> login = [] \<or> botMarked login) \<and>
   (conforming rt \<and> fetchTopContributors rt client limit = Ok out \<longrightarrow>
      (\<forall>st \<in> set out. Login st \<noteq> [] \<and> \<not> botMarked (Login st))) \<and>
   fetchTopContributors rt (withoutSkipped client) limit = fetchTopContributors rt client limit"
proof (intro conjI impI ballI)
  show "skipped login \<longleftrightarrow> login = [] \<or> botMarked login"
    by (rule skipped_iff_botMarked)
  show "fetchTopContributors rt (withoutSkipped client) limit = fetchTopContributors rt client limit"
    by (rule fetchTopContributors_withoutSkipped)
next
  fix st
  assume "conforming rt \<and> fetchTopContributors rt client limit = Ok out" and "st \<in> set out"
  then have "\<not> skipped (Login st)"
    using fetchTopContributors_not_skipped [of rt client limit out st] by simp
  then show "Login st \<noteq> []" and "\<not> botMarked (Login st)"
    by (simp_all add: skipped_iff_botMarked)
qed

lemma skipped_examples: "skipped ''dependabot[BoT]''" "skipped []" "\<not> skipped ''alice''"
  by (simp_all add: skipped_def strings_ToLower_def toLowerByte_def)

theorem bots_are_excluded_witness:
  "botMarked ''dependabot[BoT]'' \<and> \<not> botMarked ''alice'' \<and>
   fetchTopContributors forwardRuntime (withoutSkipped tieClient) 0 =
     Ok [exampleEntry ''alice'' 50 [''web'', ''api''], exampleEntry ''bob'' 30 [''web''],
         exampleEntry ''carol'' 30 [''web'', ''api''], exampleEntry ''dave'' 10 [''api'']]"
proof -
  let ?out = "[exampleEntry ''alice'' 50 [''web'', ''api''], exampleEntry ''bob'' 30 [''web''],
         exampleEntry ''carol'' 30 [''web'', ''api''], exampleEntry ''dave'' 10 [''api'']]"
  have 1: "botMarked ''dependabot[BoT]''"
    using bots_are_excluded [where login = "''dependabot[BoT]''", THEN conjunct1]
      skipped_examples(1)
    by simp
  have "\<forall>st \<in> set ?out. Login st \<noteq> [] \<and> \<not> botMarked (Login st)"
    using bots_are_excluded [where rt = forwardRuntime and client = tieClient and limit = 0
        and out = ?out, THEN conjunct2, THEN conjunct1]
      conforming_forwardRuntime tieClient_forward
    by simp
  then have 2: "\<not> botMarked ''alice''"
    by (simp add: exampleEntry_def)
  have 3: "fetchTopContributors forwardRuntime (withoutSkipped tieClient) 0 = Ok ?out"
    using bots_are_excluded [where rt = forwardRuntime and client = tieClient and limit = 0,
        THEN conjunct2, THEN conjunct2]
      tieClient_forward
    by simp
  from 1 2 3 show ?thesis by simp
qed

section \<open>The limit\<close>

lemma elems_reslice:
  assumes "validSlice h cs" and "n \<le> len cs"
  shows "elems h (reslice cs n) = take n (elems h cs)"
  using assms by (cases cs) (simp_all add: min_absorb2)

lemma len_elems: "validSlice h cs \<Longrightarrow> length (elems h cs) = len cs"
  by (cases cs) simp_all

lemma serveContributors_limit:
  assumes "validSlice (contributorsHeap s) cs"
  shows "serveContributors limit cs s =
           (ContributorsOK (applyLimit limit (elems (contributorsHeap s) cs)), s)"
proof (cases "0 < limit \<and> limit < int (len cs)")
  case True
  then have "nat limit \<le> len cs" by linarith
  with assms True show ?thesis
    by (simp add: serveContributors_def applyLimit_def len_elems elems_reslice)
next
  case False
  with assms show ?thesis
    by (auto simp: serveContributors_def applyLimit_def len_elems)
qed

lemma newSlice_valid:
  assumes "newSlice xs h = (cs, h')"
  shows "validSlice h' cs" and "elems h' cs = xs"
  using assms by (auto simp: newSlice_def split: if_splits)

text \<open>
  C7. Of the sorted sequence of the contributors, of length n, fetchTopContributors
  returns the first limit entries when 0 < limit < n, and the whole sequence when
  limit <= 0 or limit >= n. The handler does the same with the sequence it serves, the
  cached one or the one it has just fetched with the limit 0.
\<close>

theorem limit_takes_prefix:
  "(ListByOrg client = Inr repos \<and> mergeRepos client [] repos = Ok m \<longrightarrow>
      (0 < limit \<and> limit < int (length (sortedContributors rt m)) \<longrightarrow>
         fetchTopContributors rt client limit = Ok (take (nat limit) (sortedContributors rt m))) \<and>
      (limit \<le> 0 \<or> int (length (sortedContributors rt m)) \<le> limit \<longrightarrow>
         fetchTopContributors rt client limit = Ok (sortedContributors rt m))) \<and>
   (getContributors (cache s) = (cs, True) \<and> \<not> isStale now (contributors (cache s)) \<and>
    validSlice (contributorsHeap s) cs \<longrightarrow>
      (0 < limit \<and> limit < int (length (elems (contributorsHeap s) cs)) \<longrightarrow>
         fst (handleContributors rt client (Inr limit) now now' s) =
           ContributorsOK (take (nat limit) (elems (contributorsHeap s) cs))) \<and>
      (limit \<le> 0 \<or> int (length (elems (contributorsHeap s) cs)) \<le> limit \<longrightarrow>
         fst (handleContributors rt client (Inr limit) now now' s) =
           ContributorsOK (elems (contributorsHeap s) cs))) \<and>
   ((\<not> snd (getContributors (cache s)) \<or> isStale now (contributors (cache s))) \<and>
    fetchTopContributors rt client 0 = Ok xs \<longrightarrow>
      (0 < limit \<and> limit < int (length xs) \<longrightarrow>
         fst (handleContributors rt client (Inr limit) now now' s) =
           ContributorsOK (take (nat limit) xs)) \<and>
      (limit \<le> 0 \<or> int (length xs) \<le> limit \<longrightarrow>
         fst (handleContributors rt client (Inr limit) now now' s) = ContributorsOK xs))"
proof (intro conjI impI)
  assume a: "ListByOrg client = Inr repos \<and> mergeRepos client [] repos = Ok m"
  then have f: "fetchTopContributors rt client limit = Ok (applyLimit limit (sortedContributors rt m))"
    by (simp add: fetchTopContributors_def)
  {
    assume "0 < limit \<and> limit < int (length (sortedContributors rt m))"
    with f show "fetchTopContributors rt client limit = Ok (take (nat limit) (sortedContributors rt m))"
      by (simp add: applyLimit_def)
  next
    assume "limit \<le> 0 \<or> int (length (sortedContributors rt m)) \<le> limit"
    with f show "fetchTopContributors rt client limit = Ok (sortedContributors rt m)"
      by (auto simp: applyLimit_def)
  }
next
  assume a: "getContributors (cache s) = (cs, True) \<and> \<not> isStale now (contributors (cache s)) \<and>
    validSlice (contributorsHeap s) cs"
  then have h: "fst (handleContributors rt client (Inr limit) now now' s) =
      ContributorsOK (applyLimit limit (elems (contributorsHeap s) cs))"
    by (simp add: handleContributors_def serveContributors_limit)
  {
    assume "0 < limit \<and> limit < int (length (elems (contributorsHeap s) cs))"
    with h show "fst (handleContributors rt client (Inr limit) now now' s) =
           ContributorsOK (take (nat limit) (elems (contributorsHeap s) cs))"
      by (simp add: applyLimit_def)
  next
    assume "limit \<le> 0 \<or> int (length (elems (contributorsHeap s) cs)) \<le> limit"
    with h show "fst (handleContributors rt client (Inr limit) now now' s) =
           ContributorsOK (elems (contributorsHeap s) cs)"
      by (auto simp: applyLimit_def)
  }
next
  assume a: "(\<not> snd (getContributors (cache s)) \<or> isStale now (contributors (cache s))) \<and>
    fetchTopContributors rt client 0 = Ok xs"
  obtain cs h' where n: "newSlice xs (contributorsHeap s) = (cs, h')"
    by (cases "newSlice xs (contributorsHeap s)")
  note v = newSlice_valid [OF n]
  from a n have "handleContributors rt client (Inr limit) now now' s =
      serveContributors limit cs
        (s\<lparr>contributorsHeap := h', cache := updateContributors now' cs (cache s)\<rparr>)"
    by (auto simp: handleContributors_def Let_def split: prod.splits)
  with v have h: "fst (handleContributors rt client (Inr limit) now now' s) =
      ContributorsOK (applyLimit limit xs)"
    by (simp add: serveContributors_limit)
  {
    assume "0 < limit \<and> limit < int (length xs)"
    with h show "fst (handleContributors rt client (Inr limit) now now' s) =
           ContributorsOK (take (nat limit) xs)"
      by (simp add: applyLimit_def)
  next
    assume "limit \<le> 0 \<or> int (length xs) \<le> limit"
    with h show "fst (handleContributors rt client (Inr limit) now now' s) = ContributorsOK xs"
      by (auto simp: applyLimit_def)
  }
qed

lemma tieState_reached:
  "prefetchContributors forwardRuntime tieClient 63900000000000000000 initState = Some tieState"
  by (simp add: prefetchContributors_def tieClient_forward newSlice_def initState_def
      emptyHeap_def tieState_def updateContributors_def emptyCache_def)

lemma tieState_cached:
  "getContributors (cache tieState) = (Slice 0 4, True)"
  "\<not> isStale 63900000060000000000 (contributors (cache tieState))"
  "validSlice (contributorsHeap tieState) (Slice 0 4)"
  "elems (contributorsHeap tieState) (Slice 0 4) =
     [exampleEntry ''alice'' 50 [''web'', ''api''], exampleEntry ''bob'' 30 [''web''],
      exampleEntry ''carol'' 30 [''web'', ''api''], exampleEntry ''dave'' 10 [''api'']]"
  by (simp_all add: getContributors_def tieState_def isStale_elapsed cacheDuration_def Minute_def)

lemma tie_sorted_forward:
  "sortedContributors forwardRuntime
     [(''alice'', exampleEntry ''alice'' 50 [''web'', ''api'']),
      (''bob'', exampleEntry ''bob'' 30 [''web'']),
      (''carol'', exampleEntry ''carol'' 30 [''web'', ''api'']),
      (''dave'', exampleEntry ''dave'' 10 [''api''])]
   = [exampleEntry ''alice'' 50 [''web'', ''api''], exampleEntry ''bob'' 30 [''web''],
      exampleEntry ''carol'' 30 [''web'', ''api''], exampleEntry ''dave'' 10 [''api'']]"
  by (simp add: sortedContributors_def forwardRuntime_def moreContributions_def
      exampleEntry_def word_sless_alt)

theorem limit_takes_prefix_witness:
  "fetchTopContributors forwardRuntime tieClient 2 =
     Ok [exampleEntry ''alice'' 50 [''web'', ''api''], exampleEntry ''bob'' 30 [''web'']] \<and>
   fetchTopContributors forwardRuntime tieClient 4 =
     Ok [exampleEntry ''alice'' 50 [''web'', ''api''], exampleEntry ''bob'' 30 [''web''],
         exampleEntry ''carol'' 30 [''web'', ''api''], exampleEntry ''dave'' 10 [''api'']] \<and>
   fst (handleContributors forwardRuntime failingClient (Inr 3) 63900000060000000000
          63900000060000000001 tieState) =
     ContributorsOK [exampleEntry ''alice'' 50 [''web'', ''api''], exampleEntry ''bob'' 30 [''web''],
                     exampleEntry ''carol'' 30 [''web'', ''api'']] \<and>
   fst (handleContributors forwardRuntime tieClient (Inr 1) 63900000000000000000
          63900000000000000001 initState) =
     ContributorsOK [exampleEntry ''alice'' 50 [''web'', ''api'']]"
proof -
  let ?m = "[(''alice'', exampleEntry ''alice'' 50 [''web'', ''api'']),
      (''bob'', exampleEntry ''bob'' 30 [''web'']),
      (''carol'', exampleEntry ''carol'' 30 [''web'', ''api'']),
      (''dave'', exampleEntry ''dave'' 10 [''api''])]"
  let ?all = "[exampleEntry ''alice'' 50 [''web'', ''api''], exampleEntry ''bob'' 30 [''web''],
      exampleEntry ''carol'' 30 [''web'', ''api''], exampleEntry ''dave'' 10 [''api'']]"
  have 1: "fetchTopContributors forwardRuntime tieClient 2 =
     Ok [exampleEntry ''alice'' 50 [''web'', ''api''], exampleEntry ''bob'' 30 [''web'']]"
    using limit_takes_prefix [where client = tieClient and rt = forwardRuntime and m = ?m
        and repos = "[exampleRepo ''web'' 10 False, exampleRepo ''api'' 5 False]"
        and limit = 2, THEN conjunct1]
      tieClient_listing(1) tieClient_merged
    by (simp add: tie_sorted_forward del: mergeRepos.simps)
  have 2: "fetchTopContributors forwardRuntime tieClient 4 = Ok ?all"
    using limit_takes_prefix [where client = tieClient and rt = forwardRuntime and m = ?m
        and repos = "[exampleRepo ''web'' 10 False, exampleRepo ''api'' 5 False]"
        and limit = 4, THEN conjunct1]
      tieClient_listing(1) tieClient_merged
    by (simp add: tie_sorted_forward del: mergeRepos.simps)
  have 3: "fst (handleContributors forwardRuntime failingClient (Inr 3) 63900000060000000000
          63900000060000000001 tieState) =
     ContributorsOK [exampleEntry ''alice'' 50 [''web'', ''api''], exampleEntry ''bob'' 30 [''web''],
                     exampleEntry ''carol'' 30 [''web'', ''api'']]"
    using limit_takes_prefix [where s = tieState and cs = "Slice 0 4" and limit = 3
        and now = 63900000060000000000 and now' = 63900000060000000001
        and rt = forwardRuntime and client = failingClient, THEN conjunct2, THEN conjunct1]
      tieState_cached(1,2,3)
    by (simp add: tieState_cached(4) del: validSlice.simps elems.simps)
  have absent: "\<not> snd (getContributors (cache initState))"
    by (simp add: getContributors_def initState_def emptyCache_def emptyItem_def)
  have 4: "fst (handleContributors forwardRuntime tieClient (Inr 1) 63900000000000000000
          63900000000000000001 initState) =
     ContributorsOK [exampleEntry ''alice'' 50 [''web'', ''api'']]"
    using limit_takes_prefix [where s = initState and limit = 1 and xs = ?all
        and now = 63900000000000000000 and now' = 63900000000000000001
        and rt = forwardRuntime and client = tieClient, THEN conjunct2, THEN conjunct2]
      absent tieClient_forward
    by simp
  from 1 2 3 4 show ?thesis by simp
qed

section \<open>Which methods of the cache exclude each other\<close>

text \<open>
  C4, as the code has it. A method of the cache that is running blocks a method that
  arrives exactly when one of the two is an update, whichever entries the two work on:
  all four lock the one mutex of the cache. An update of either entry blocks every
  read and update of both entries, and is blocked by them; two reads never block each
  other.
\<close>

theorem blocks_iff_an_update:
  "blocks running arriving \<longleftrightarrow> lockingOf running = Lock \<or> lockingOf arriving = Lock"
  by (cases running; cases arriving) (simp_all add: blocks_def unlocked_def)

text \<open>
  C4 as stated fails: an update of the statistics blocks a read and an update of the
  contributors, and an update of the contributors blocks a read of the statistics.
\<close>

theorem update_blocks_other_kind:
  "entryOf UpdateStats \<noteq> entryOf GetContributors \<and> blocks UpdateStats GetContributors \<and>
   entryOf UpdateStats \<noteq> entryOf UpdateContributors \<and> blocks UpdateStats UpdateContributors \<and>
   entryOf UpdateContributors \<noteq> entryOf GetStats \<and> blocks UpdateContributors GetStats"
  by (simp add: blocks_def unlocked_def)

section \<open>A read of the statistics reorders the cache\<close>

lemma stars_sorted_unique:
  assumes "conforming rt"
  shows "map Stars (sortRepoStats rt moreStars
           [exampleStat ''web'' 10 0 [''vtuber''], exampleStat ''api'' 5 2 [],
            exampleStat ''bot'' 20 2 [''vtuber'']]) = [20, 10, 5]"
    and "length (sortRepoStats rt moreStars
           [exampleStat ''web'' 10 0 [''vtuber''], exampleStat ''api'' 5 2 [],
            exampleStat ''bot'' 20 2 [''vtuber'']]) = 3"
proof -
  let ?xs = "[exampleStat ''web'' 10 0 [''vtuber''], exampleStat ''api'' 5 2 [],
            exampleStat ''bot'' 20 2 [''vtuber'']]"
  define out where "out = sortRepoStats rt moreStars ?xs"
  have "(\<lambda>a b. \<not> moreStars b a) = (\<lambda>a b. sint (Stars b) \<le> sint (Stars a))"
    by (auto simp: moreStars_def word_sless_alt fun_eq_iff)
  with assms have sorted: "sorted_wrt (\<lambda>a b. sint (Stars b) \<le> sint (Stars a)) out"
    and ms: "mset out = mset ?xs"
    by (simp_all add: out_def conforming_def sorts_def)
  from sorted_keys_unique [OF sorted ms]
  have "map (\<lambda>st. sint (Stars st)) out = [20, 10, 5]"
    by (simp add: exampleStat_def)
  then have "map sint (map Stars out) = map sint [20, 10, 5 :: go_int]"
    by (simp add: comp_def)
  moreover have "inj (sint :: go_int \<Rightarrow> int)"
    by (auto simp: inj_def intro: signed_word_eqI)
  ultimately have "map Stars out = [20, 10, 5]"
    by (simp only: inj_map_eq_map)
  then show "map Stars (sortRepoStats rt moreStars ?xs) = [20, 10, 5]"
    by (simp only: out_def)
  from ms have "length out = length ?xs" by (rule mset_eq_length)
  then show "length (sortRepoStats rt moreStars ?xs) = 3"
    by (simp add: out_def)
qed

text \<open>
  C5, at the state after the prefetch of repositories with 10, 5 and 20 stars and a read
  of the statistics one minute later, whatever the sort and the client: the cache
  entry, which held the repositories in the order 10, 5, 20 before the read, holds them
  in the order 20, 10, 5 after it. The handler sorts the slice it got from the cache in
  place, and that slice shares its backing array with the cache entry.
\<close>

theorem stats_read_reorders_cache:
  assumes "conforming rt"
  shows "map Stars (elems (statsHeap warmState) (fst (getStats (cache warmState)))) = [10, 5, 20] \<and>
   (case handleStats rt GetLanguageColor client 63900000060000000000 now' warmState of
      (r, s') \<Rightarrow>
        cache s' = cache warmState \<and>
        map Stars (elems (statsHeap s') (fst (getStats (cache s')))) = [20, 10, 5] \<and>
        r = StatsOK (elems (statsHeap s') (fst (getStats (cache s')))) 35 3 3 4)"
  using warmState_fresh stars_sorted_unique [OF assms]
  by (simp add: handleStats_def serveStats_def getStats_def warmState_def exampleStat_def Let_def)

theorem stats_read_reorders_cache_witness:
  "map Stars
     (elems (statsHeap (snd (handleStats forwardRuntime exampleColor failingClient
                               63900000060000000000 63900000060000000001 warmState)))
        (fst (getStats (cache warmState))))
   = [20, 10, 5]"
  using stats_read_reorders_cache [OF conforming_forwardRuntime, of exampleColor failingClient
      63900000060000000001]
  by (auto split: prod.splits)

end
